(* ===== verification/Pallet_Prelude.thy ===== *)
theory Pallet_Prelude
  imports Main "HOL-Library.Word"
begin

text \<open>
  Shared vocabulary of the development: the Rust integer types of the pallet as words,
  and the small exception-and-state combinators in which every dispatchable of
  \<^verbatim>\<open>src/pallets/game/src/lib.rs\<close> is written. A computation of type
  \<open>('e, 's, 'a) exn_st\<close> takes the storage state and returns either an error
  (\<open>Inl\<close>) or a value (\<open>Inr\<close>), together with the storage as it is after the
  computation. As in the Rust code, the \<open>?\<close> operator and the \<open>ensure!\<close> macro
  return early, and writes done before an early return are not undone by the
  combinators themselves: rolling storage back is the host's business
  (see \<open>with_transaction\<close> in theory \<open>Runtime\<close>).
\<close>

type_synonym u16 = "16 word"
type_synonym u32 = "32 word"

type_synonym ('e, 's, 'a) exn_st = "'s \<Rightarrow> ('e + 'a) \<times> 's"

named_theorems exn_st_simps "evaluation rules of the dispatch combinators"

definition dret :: "'a \<Rightarrow> ('e, 's, 'a) exn_st" where
  "dret a = (\<lambda>s. (Inr a, s))"

definition dthrow :: "'e \<Rightarrow> ('e, 's, 'a) exn_st" where
  "dthrow e = (\<lambda>s. (Inl e, s))"

definition dbind :: "('e, 's, 'a) exn_st \<Rightarrow> ('a \<Rightarrow> ('e, 's, 'b) exn_st) \<Rightarrow> ('e, 's, 'b) exn_st" where
  "dbind m f = (\<lambda>s. case m s of (Inl e, s') \<Rightarrow> (Inl e, s') | (Inr a, s') \<Rightarrow> f a s')"

text \<open>A storage read (\<open>StorageValue::get\<close>, a map lookup, a getter).\<close>

definition dgets :: "('s \<Rightarrow> 'a) \<Rightarrow> ('e, 's, 'a) exn_st" where
  "dgets f = (\<lambda>s. (Inr (f s), s))"

text \<open>A storage write (\<open>insert\<close>, \<open>set\<close>, \<open>deposit_event\<close>).\<close>

definition dmodify :: "('s \<Rightarrow> 's) \<Rightarrow> ('e, 's, unit) exn_st" where
  "dmodify f = (\<lambda>s. (Inr (), f s))"

text \<open>\<open>ensure!(cond, err)\<close>: \<open>if !cond { return Err(err.into()) }\<close>.\<close>

definition densure :: "bool \<Rightarrow> 'e \<Rightarrow> ('e, 's, unit) exn_st" where
  "densure b e = (if b then dret () else dthrow e)"

text \<open>\<open>m.map_err(g)\<close>, whose result is then propagated by \<open>?\<close>.\<close>

definition dmap_err :: "('e \<Rightarrow> 'f) \<Rightarrow> ('e, 's, 'a) exn_st \<Rightarrow> ('f, 's, 'a) exn_st" where
  "dmap_err g m = (\<lambda>s. case m s of (Inl e, s') \<Rightarrow> (Inl (g e), s') | (Inr a, s') \<Rightarrow> (Inr a, s'))"

text \<open>
  Rust's \<open>+\<close> and \<open>*\<close> on unsigned integers in a build with overflow checks:
  the result, or \<open>None\<close> for the panic "attempt to add/multiply with overflow".
\<close>

definition checked_add :: "'a::len word \<Rightarrow> 'a word \<Rightarrow> 'a word option" where
  "checked_add x y = (if unat x + unat y < 2 ^ LENGTH('a) then Some (x + y) else None)"

definition checked_mul :: "'a::len word \<Rightarrow> 'a word \<Rightarrow> 'a word option" where
  "checked_mul x y = (if unat x * unat y < 2 ^ LENGTH('a) then Some (x * y) else None)"

subsection \<open>Evaluation rules\<close>

lemma dret_apply [simp, exn_st_simps]: "dret a s = (Inr a, s)"
  by (simp add: dret_def)

lemma dthrow_apply [simp, exn_st_simps]: "dthrow e s = (Inl e, s)"
  by (simp add: dthrow_def)

lemma dgets_apply [simp, exn_st_simps]: "dgets f s = (Inr (f s), s)"
  by (simp add: dgets_def)

lemma dmodify_apply [simp, exn_st_simps]: "dmodify f s = (Inr (), f s)"
  by (simp add: dmodify_def)

lemma densure_apply [simp, exn_st_simps]:
  "densure b e s = (if b then (Inr (), s) else (Inl e, s))"
  by (simp add: densure_def)

lemma dbind_apply [exn_st_simps]:
  "dbind m f s = (case m s of (Inl e, s') \<Rightarrow> (Inl e, s') | (Inr a, s') \<Rightarrow> f a s')"
  by (simp add: dbind_def)

lemma dmap_err_apply [exn_st_simps]:
  "dmap_err g m s = (case m s of (Inl e, s') \<Rightarrow> (Inl (g e), s') | (Inr a, s') \<Rightarrow> (Inr a, s'))"
  by (simp add: dmap_err_def)

text \<open>Binding after a computation whose outcome is known.\<close>

lemma dbind_Inr [simp]: "m s = (Inr a, s') \<Longrightarrow> dbind m f s = f a s'"
  by (simp add: dbind_def)

lemma dbind_Inl [simp]: "m s = (Inl e, s') \<Longrightarrow> dbind m f s = (Inl e, s')"
  by (simp add: dbind_def)

lemma dmap_err_Inr [simp]: "m s = (Inr a, s') \<Longrightarrow> dmap_err g m s = (Inr a, s')"
  by (simp add: dmap_err_def)

lemma dmap_err_Inl [simp]: "m s = (Inl e, s') \<Longrightarrow> dmap_err g m s = (Inl (g e), s')"
  by (simp add: dmap_err_def)

subsection \<open>Monad laws\<close>

lemma dbind_dret_left [simp]: "dbind (dret a) f = f a"
  by (simp add: dbind_def)

lemma dbind_dret_right [simp]: "dbind m dret = m"
  by (rule ext) (simp add: dbind_def split: prod.split sum.split)

lemma dbind_assoc: "dbind (dbind m f) g = dbind m (\<lambda>a. dbind (f a) g)"
  by (rule ext) (simp add: dbind_def split: prod.split sum.split)

subsection \<open>Words\<close>

text \<open>Successor of a word below the maximum does not wrap.\<close>

lemma unat_plus_one_below_max:
  fixes x :: "'a::len word"
  assumes "x \<noteq> - 1"
  shows "unat (x + 1) = unat x + 1"
proof -
  have "x + 1 \<noteq> 0" using assms by (auto dest: max_word_wrap)
  then show ?thesis by (simp add: unatSuc add.commute)
qed

lemma word_less_plus_one_below_max:
  fixes x :: "'a::len word"
  assumes "x \<noteq> - 1"
  shows "x < x + 1"
  using unat_plus_one_below_max [OF assms] by (simp add: word_less_nat_alt)

text \<open>A natural number below \<open>unat n\<close> survives the round trip through the word type.\<close>

lemma unat_of_nat_below:
  assumes "k < unat (n :: 'a::len word)"
  shows "unat (of_nat k :: 'a word) = k"
proof -
  have "unat n < 2 ^ LENGTH('a)" by (rule unsigned_less)
  with assms have "k < 2 ^ LENGTH('a)" by linarith
  then show ?thesis by (simp add: unat_of_nat)
qed

lemma of_nat_below_ne: "k < unat n \<Longrightarrow> (of_nat k :: 'a::len word) \<noteq> n"
  using unat_of_nat_below by fastforce

text \<open>The words below \<open>n\<close> are the images of the naturals below \<open>unat n\<close>.\<close>

lemma word_less_eq_image: "{i :: 'a::len word. i < n} = of_nat ` {0..<unat n}"
proof
  show "{i :: 'a word. i < n} \<subseteq> of_nat ` {0..<unat n}"
  proof
    fix i :: "'a word" assume "i \<in> {i. i < n}"
    then have "unat i \<in> {0..<unat n}" by (simp add: word_less_nat_alt)
    then show "i \<in> of_nat ` {0..<unat n}" by (metis image_eqI of_nat_unat ucast_id)
  qed
next
  show "of_nat ` {0..<unat n} \<subseteq> {i :: 'a word. i < n}"
  proof
    fix i :: "'a word" assume "i \<in> of_nat ` {0..<unat n}"
    then obtain k where k: "k < unat n" and i: "i = of_nat k" by auto
    from k have "unat (of_nat k :: 'a word) = k" by (rule unat_of_nat_below)
    with k i show "i \<in> {i. i < n}" by (simp add: word_less_nat_alt)
  qed
qed

lemma inj_on_of_nat_below: "inj_on (of_nat :: nat \<Rightarrow> 'a::len word) {0..<unat (n :: 'a word)}"
  by (rule inj_onI) (metis atLeastLessThan_iff unat_of_nat_below)

end
