(* ===== verification/Pallet_Types.thy ===== *)
theory Pallet_Types
  imports Pallet_Prelude
begin

text \<open>
  The data of the pallet (\<^verbatim>\<open>src/pallets/game/src/lib.rs\<close>, lines 15-69): the
  fighter index, the \<open>Fighter\<close> struct, the events and errors, and the storage of
  one runtime instance as a record. The account type \<open>T::AccountId\<close> is the type
  variable \<open>'acc\<close>: nothing of the pallet depends on it beyond equality. The
  origin and \<open>ensure_signed\<close> come from \<open>frame_system\<close>, the wrapping of a
  pallet error into \<open>DispatchError::Module\<close> from \<open>frame_support\<close>; both are
  modelled after their documented behaviour.
\<close>

type_synonym FighterIndex = u32

text \<open>\<open>#[pallet::type_value] fn GetDefaultValue() -> FighterIndex { 0_u32 }\<close>\<close>

definition GetDefaultValue :: FighterIndex where
  "GetDefaultValue = 0"

text \<open>
  \<open>pub struct Fighter(pub [u16; 3])\<close>. The comment above the struct says the array
  is \<open>[attack, defend, hp]\<close>; \<open>create\<close> builds it as \<open>[hp, atk, def]\<close>.
  A fixed-size array is a list whose length every constructor of the pallet keeps at 3.
\<close>

datatype fighter = Fighter "u16 list"

datatype 'acc event =
    FighterCreated 'acc FighterIndex fighter
  | FighterTransferred 'acc 'acc FighterIndex

datatype pallet_error = InvalidFighterId | NotOwner | TotalOverflow | DefOverflow

text \<open>\<open>DispatchError\<close>, restricted to the two variants these calls can raise.\<close>

datatype dispatch_error = BadOrigin | Module pallet_error

text \<open>\<open>frame_system::RawOrigin\<close>; \<open>RawOrigin::None\<close> is \<open>NoneOrigin\<close> here.\<close>

datatype 'acc origin = Signed 'acc | Root | NoneOrigin

text \<open>
  Storage of the pallet: \<open>NextFighterId\<close> (a \<open>ValueQuery\<close> with default
  \<open>GetDefaultValue\<close>), the maps \<open>Fighters\<close> and \<open>FighterOwner\<close>, read through
  the getters \<open>next_fighter_id\<close>, \<open>fighters\<close> and \<open>fighter_owner\<close> that the
  \<open>#[pallet::getter]\<close> attributes generate; and the event log of \<open>frame_system\<close>,
  to which \<open>deposit_event\<close> appends.
\<close>

record 'acc pallet_state =
  next_fighter_id :: FighterIndex
  fighters :: "FighterIndex \<rightharpoonup> fighter"
  fighter_owner :: "FighterIndex \<rightharpoonup> 'acc"
  events :: "'acc event list"

type_synonym ('acc, 'a) pallet_op = "(dispatch_error, 'acc pallet_state, 'a) exn_st"

text \<open>The storage of a fresh chain: every \<open>ValueQuery\<close> at its default, every map empty.\<close>

definition genesis :: "'acc pallet_state" where
  "genesis = \<lparr>next_fighter_id = GetDefaultValue, fighters = Map.empty,
              fighter_owner = Map.empty, events = []\<rparr>"

subsection \<open>Storage writes\<close>

definition Fighters_insert :: "FighterIndex \<Rightarrow> fighter \<Rightarrow> ('e, 'acc pallet_state, unit) exn_st" where
  "Fighters_insert k v = dmodify (\<lambda>s. s\<lparr>fighters := (fighters s)(k \<mapsto> v)\<rparr>)"

definition FighterOwner_insert :: "FighterIndex \<Rightarrow> 'acc \<Rightarrow> ('e, 'acc pallet_state, unit) exn_st" where
  "FighterOwner_insert k v = dmodify (\<lambda>s. s\<lparr>fighter_owner := (fighter_owner s)(k \<mapsto> v)\<rparr>)"

definition NextFighterId_set :: "FighterIndex \<Rightarrow> ('e, 'acc pallet_state, unit) exn_st" where
  "NextFighterId_set v = dmodify (\<lambda>s. s\<lparr>next_fighter_id := v\<rparr>)"

definition deposit_event :: "'acc event \<Rightarrow> ('e, 'acc pallet_state, unit) exn_st" where
  "deposit_event ev = dmodify (\<lambda>s. s\<lparr>events := events s @ [ev]\<rparr>)"

text \<open>\<open>ensure_signed(origin)?\<close>: the signer of a signed origin, \<open>BadOrigin\<close> otherwise.\<close>

definition ensure_signed :: "'acc origin \<Rightarrow> (dispatch_error, 's, 'acc) exn_st" where
  "ensure_signed origin = (case origin of Signed who \<Rightarrow> dret who | _ \<Rightarrow> dthrow BadOrigin)"

lemmas storage_write_defs [exn_st_simps] =
  Fighters_insert_def FighterOwner_insert_def NextFighterId_set_def deposit_event_def

lemma ensure_signed_Signed [simp]: "ensure_signed (Signed who) = dret who"
  by (simp add: ensure_signed_def)

lemma ensure_signed_not_Signed [simp]:
  "(\<And>who. origin \<noteq> Signed who) \<Longrightarrow> ensure_signed origin = dthrow BadOrigin"
  by (cases origin) (auto simp: ensure_signed_def)

end
