(* ===== verification/Id_Allocator.thy ===== *)
theory Id_Allocator
  imports Pallet_Types
begin

text \<open>
  The id allocator: the stored counter \<open>NextFighterId\<close> and
  \<open>Pallet::get_next_id\<close> (\<^verbatim>\<open>lib.rs\<close> lines 118-124), which returns the counter
  unless it is \<open>FighterIndex::MAX\<close>. The counter is advanced by \<open>create\<close> itself
  (\<open>NextFighterId::<T>::set(fighter_id + 1)\<close>); the lemmas here show that this
  addition never wraps, because \<open>get_next_id\<close> never hands out the maximum.
\<close>

text \<open>\<open>FighterIndex::MAX\<close>, i.e. \<open>u32::MAX\<close>.\<close>

definition FighterIndex_MAX :: FighterIndex where
  "FighterIndex_MAX = - 1"

definition get_next_id :: "(unit, 'acc pallet_state, FighterIndex) exn_st" where
  "get_next_id =
     dbind (dgets next_fighter_id) (\<lambda>v. if v = FighterIndex_MAX then dthrow () else dret v)"

lemma unat_FighterIndex_MAX [simp]: "unat FighterIndex_MAX = 4294967295"
  by (simp add: FighterIndex_MAX_def unsigned_minus_1_eq_mask mask_eq_exp_minus_1)

lemma get_next_id_apply [exn_st_simps]:
  "get_next_id s =
     (if next_fighter_id s = FighterIndex_MAX then (Inl (), s) else (Inr (next_fighter_id s), s))"
  by (simp add: get_next_id_def dbind_apply)

text \<open>Below the maximum, the counter is a \<open>nat\<close> smaller than \<open>2^32 - 1\<close>.\<close>

lemma below_max_iff: "(v \<noteq> FighterIndex_MAX) = (unat v < 4294967295)"
proof -
  have "unat v < 2 ^ 32" using unsigned_less [of v] by simp
  then have "unat v \<le> 4294967295" by simp
  moreover have "(v = FighterIndex_MAX) = (unat v = unat FighterIndex_MAX)"
    by (simp only: word_unat_eq_iff)
  ultimately show ?thesis by auto
qed

text \<open>Advancing a counter that is below the maximum does not wrap.\<close>

lemma advance_no_wrap:
  assumes "v \<noteq> FighterIndex_MAX"
  shows "unat (v + 1) = unat v + 1" and "v < v + 1"
  using assms
  by (simp_all add: FighterIndex_MAX_def unat_plus_one_below_max word_less_plus_one_below_max)

text \<open>
  C22. When \<open>get_next_id\<close> hands out an index it reads the stored counter without
  changing storage, and \<open>index + 1\<close>, which \<open>create\<close> stores back, does not wrap.
\<close>

theorem get_next_id_no_wrap:
  assumes "get_next_id s = (Inr v, s')"
  shows "s' = s \<and> v = next_fighter_id s \<and> v < v + 1 \<and> unat (v + 1) = unat v + 1"
proof -
  from assms have v: "v = next_fighter_id s" "s' = s" "v \<noteq> FighterIndex_MAX"
    by (auto simp: get_next_id_apply split: if_splits)
  then show ?thesis using advance_no_wrap [OF v(3)] by simp
qed

lemma get_next_id_no_wrap_witness:
  "(0::FighterIndex) < 0 + 1 \<and> unat ((0::FighterIndex) + 1) = unat (0::FighterIndex) + 1"
proof -
  have "get_next_id (genesis :: nat pallet_state) = (Inr 0, genesis)"
    by (simp add: get_next_id_apply genesis_def GetDefaultValue_def FighterIndex_MAX_def)
  from get_next_id_no_wrap [OF this] show ?thesis by simp
qed

end
