(* ===== verification/Stores.thy ===== *)
theory Stores
  imports Pallet_Types
begin

text \<open>
  The entity store \<open>Fighters\<close> and the ownership store \<open>FighterOwner\<close>
  (\<^verbatim>\<open>lib.rs\<close> lines 44-52) with the read helper \<open>Pallet::get_fighter\<close>
  (lines 126-132), which turns a missing entry into \<open>Err(())\<close>. The lemmas give
  the frame of each storage write: what it changes and what it leaves alone.
\<close>

definition get_fighter :: "FighterIndex \<Rightarrow> (unit, 'acc pallet_state, fighter) exn_st" where
  "get_fighter fighter_id =
     dbind (dgets (\<lambda>s. fighters s fighter_id))
       (\<lambda>r. case r of Some fighter \<Rightarrow> dret fighter | None \<Rightarrow> dthrow ())"

lemma get_fighter_apply [exn_st_simps]:
  "get_fighter fighter_id s =
     (case fighters s fighter_id of Some fighter \<Rightarrow> (Inr fighter, s) | None \<Rightarrow> (Inl (), s))"
  by (simp add: get_fighter_def dbind_apply split: option.split)

lemma get_fighter_Inr_iff: "(\<exists>f. get_fighter fighter_id s = (Inr f, s)) = (fighter_id \<in> dom (fighters s))"
  by (auto simp: get_fighter_apply split: option.split)

text \<open>Frame of each write.\<close>

lemma Fighters_insert_apply [simp]:
  "Fighters_insert k v s = (Inr (), s\<lparr>fighters := (fighters s)(k \<mapsto> v)\<rparr>)"
  by (simp add: Fighters_insert_def)

lemma FighterOwner_insert_apply [simp]:
  "FighterOwner_insert k v s = (Inr (), s\<lparr>fighter_owner := (fighter_owner s)(k \<mapsto> v)\<rparr>)"
  by (simp add: FighterOwner_insert_def)

lemma NextFighterId_set_apply [simp]:
  "NextFighterId_set v s = (Inr (), s\<lparr>next_fighter_id := v\<rparr>)"
  by (simp add: NextFighterId_set_def)

lemma deposit_event_apply [simp]:
  "deposit_event ev s = (Inr (), s\<lparr>events := events s @ [ev]\<rparr>)"
  by (simp add: deposit_event_def)

end
