(* ===== verification/Fighter_Create.thy ===== *)
theory Fighter_Create
  imports Id_Allocator Stores
begin

text \<open>
  The dispatchable \<open>create(origin, hp, atk, def)\<close> (\<^verbatim>\<open>lib.rs\<close> lines 73-87),
  step by step as the Rust body: \<open>ensure_signed\<close>, the power-budget check
  \<open>hp + atk * 10 + def * 10 <= 1000\<close> evaluated in \<open>u16\<close>, the defence cap,
  \<open>get_next_id\<close> with its error mapped to \<open>InvalidFighterId\<close>, then the three
  storage writes and the event. The arithmetic of the budget check is the
  wrapping arithmetic of \<open>u16\<close> (a release build of the runtime has no overflow
  checks); the lemmas below read it back as \<open>nat\<close> arithmetic modulo \<open>2^16\<close>.
  \<open>create_checked\<close> gives the same lines the semantics of a build with overflow
  checks, where the expression panics instead.
\<close>

definition create :: "'acc origin \<Rightarrow> u16 \<Rightarrow> u16 \<Rightarrow> u16 \<Rightarrow> ('acc, unit) pallet_op" where
  "create origin hp atk def =
     dbind (ensure_signed origin) (\<lambda>who.
     dbind (densure (hp + atk * 10 + def * 10 \<le> 1000) (Module TotalOverflow)) (\<lambda>_.
     dbind (densure (def \<le> 50) (Module DefOverflow)) (\<lambda>_.
     dbind (dmap_err (\<lambda>_. Module InvalidFighterId) get_next_id) (\<lambda>fighter_id.
     let dna = [hp, atk, def]; fighter = Fighter dna in
     dbind (Fighters_insert fighter_id fighter) (\<lambda>_.
     dbind (FighterOwner_insert fighter_id who) (\<lambda>_.
     dbind (NextFighterId_set (fighter_id + 1)) (\<lambda>_.
     dbind (deposit_event (FighterCreated who fighter_id fighter)) (\<lambda>_.
     dret ()))))))))"

text \<open>
  The same lines in a build with overflow checks (the debug profile, and
  \<^verbatim>\<open>cargo test\<close>): the budget expression \<open>hp + atk * 10 + def * 10\<close> is evaluated
  left to right with checked operations and a panic aborts the extrinsic.
  \<open>power_checked\<close> is that evaluation; \<open>create_checked\<close> returns \<open>None\<close> for the
  panic and otherwise the result and storage of the rest of the body, which is the body
  of \<open>create\<close> statement for statement.
\<close>

definition power_checked :: "u16 \<Rightarrow> u16 \<Rightarrow> u16 \<Rightarrow> u16 option" where
  "power_checked hp atk def =
     Option.bind (checked_mul atk 10) (\<lambda>a.
     Option.bind (checked_add hp a) (\<lambda>b.
     Option.bind (checked_mul def 10) (\<lambda>c.
     checked_add b c)))"

definition create_checked :: "'acc origin \<Rightarrow> u16 \<Rightarrow> u16 \<Rightarrow> u16 \<Rightarrow> 'acc pallet_state \<Rightarrow>
                              ((dispatch_error + unit) \<times> 'acc pallet_state) option" where
  "create_checked origin hp atk def s =
     (case ensure_signed origin s of
        (Inl e, s1) \<Rightarrow> Some (Inl e, s1)
      | (Inr who, s1) \<Rightarrow>
          map_option (\<lambda>power.
            (dbind (densure (power \<le> 1000) (Module TotalOverflow)) (\<lambda>_.
             dbind (densure (def \<le> 50) (Module DefOverflow)) (\<lambda>_.
             dbind (dmap_err (\<lambda>_. Module InvalidFighterId) get_next_id) (\<lambda>fighter_id.
             let dna = [hp, atk, def]; fighter = Fighter dna in
             dbind (Fighters_insert fighter_id fighter) (\<lambda>_.
             dbind (FighterOwner_insert fighter_id who) (\<lambda>_.
             dbind (NextFighterId_set (fighter_id + 1)) (\<lambda>_.
             dbind (deposit_event (FighterCreated who fighter_id fighter)) (\<lambda>_.
             dret ()))))))) s1))
            (power_checked hp atk def))"

text \<open>The state after a successful creation by \<open>who\<close>.\<close>

lemma create_Signed:
  "create (Signed who) hp atk def s =
     (if \<not> hp + atk * 10 + def * 10 \<le> 1000 then (Inl (Module TotalOverflow), s)
      else if \<not> def \<le> 50 then (Inl (Module DefOverflow), s)
      else if next_fighter_id s = FighterIndex_MAX then (Inl (Module InvalidFighterId), s)
      else (Inr (),
            s\<lparr>fighters := (fighters s)(next_fighter_id s \<mapsto> Fighter [hp, atk, def]),
              fighter_owner := (fighter_owner s)(next_fighter_id s \<mapsto> who),
              next_fighter_id := next_fighter_id s + 1,
              events := events s @ [FighterCreated who (next_fighter_id s) (Fighter [hp, atk, def])]\<rparr>))"
  by (simp add: create_def dbind_apply dmap_err_apply get_next_id_apply Let_def)

lemma create_not_Signed:
  "(\<And>who. origin \<noteq> Signed who) \<Longrightarrow> create origin hp atk def s = (Inl BadOrigin, s)"
  by (simp add: create_def)

text \<open>The budget expression, read as \<open>nat\<close>: the exact sum modulo \<open>2^16\<close>.\<close>

lemma unat_add_u16: "unat (x + y :: u16) = (unat x + unat y) mod 65536"
  by (simp add: unat_word_ariths)

lemma unat_mul10_u16: "unat (x * 10 :: u16) = (unat x * 10) mod 65536"
  by (simp add: unat_word_ariths)

lemma unat_power_expr:
  "unat (hp + atk * 10 + def * 10 :: u16) = (unat hp + unat atk * 10 + unat def * 10) mod 65536"
proof -
  have "unat (hp + atk * 10 + def * 10) =
        ((unat hp + (unat atk * 10) mod 65536) mod 65536 + (unat def * 10) mod 65536) mod 65536"
    by (simp only: unat_add_u16 unat_mul10_u16)
  also have "\<dots> = (unat hp + unat atk * 10 + unat def * 10) mod 65536"
    by (simp only: mod_add_left_eq mod_add_right_eq add.assoc)
  finally show ?thesis .
qed

text \<open>The checked evaluation panics exactly when the exact sum does not fit in \<open>u16\<close>.\<close>

lemma power_checked_eq:
  "power_checked hp atk def =
     (if unat hp + unat atk * 10 + unat def * 10 < 65536 then Some (hp + atk * 10 + def * 10) else None)"
proof (cases "unat atk * 10 < 65536 \<and> unat hp + unat atk * 10 < 65536 \<and> unat def * 10 < 65536")
  case True
  then have u1: "unat (atk * 10) = unat atk * 10" and u2: "unat (def * 10) = unat def * 10"
    by (simp_all add: unat_mul10_u16)
  with True have u3: "unat (hp + atk * 10) = unat hp + unat atk * 10"
    by (simp add: unat_add_u16)
  show ?thesis
    using True u1 u2 u3 by (simp add: power_checked_def checked_add_def checked_mul_def)
next
  case False
  then have over: "\<not> unat hp + unat atk * 10 + unat def * 10 < 65536" by linarith
  consider (m1) "\<not> unat atk * 10 < 65536"
    | (a1) "unat atk * 10 < 65536" "\<not> unat hp + unat atk * 10 < 65536"
    | (m2) "unat atk * 10 < 65536" "unat hp + unat atk * 10 < 65536" "\<not> unat def * 10 < 65536"
    using False by blast
  then have "power_checked hp atk def = None"
  proof cases
    case m1
    then show ?thesis by (simp add: power_checked_def checked_mul_def)
  next
    case a1
    then have "unat (atk * 10) = unat atk * 10" by (simp add: unat_mul10_u16)
    with a1 show ?thesis by (simp add: power_checked_def checked_mul_def checked_add_def)
  next
    case m2
    then have "unat (atk * 10) = unat atk * 10" by (simp add: unat_mul10_u16)
    with m2 show ?thesis by (simp add: power_checked_def checked_mul_def checked_add_def)
  qed
  with over show ?thesis by simp
qed

text \<open>
  C2. \<open>create\<close> by a signed caller succeeds exactly when the power-budget check (in
  \<open>u16\<close>), the defence cap and the id allocator all pass.
\<close>

theorem create_succeeds_iff:
  "(fst (create (Signed who) hp atk def s) = Inr ()) =
     (hp + atk * 10 + def * 10 \<le> 1000 \<and> def \<le> 50 \<and> next_fighter_id s \<noteq> FighterIndex_MAX)"
  by (simp add: create_Signed)

text \<open>
  C3. A successful \<open>create\<close> stores \<open>Fighter [hp, atk, def]\<close> and the caller as
  owner under the old counter value, advances the counter by exactly one (no wrap),
  appends one \<open>FighterCreated\<close> event, and leaves every other index untouched.
\<close>

theorem create_success_effect:
  assumes "create (Signed who) hp atk def s = (Inr (), s')"
  shows "fighters s' (next_fighter_id s) = Some (Fighter [hp, atk, def]) \<and>
         fighter_owner s' (next_fighter_id s) = Some who \<and>
         unat (next_fighter_id s') = unat (next_fighter_id s) + 1 \<and>
         events s' = events s @ [FighterCreated who (next_fighter_id s) (Fighter [hp, atk, def])] \<and>
         (\<forall>i. i \<noteq> next_fighter_id s \<longrightarrow>
              fighters s' i = fighters s i \<and> fighter_owner s' i = fighter_owner s i)"
proof -
  from assms have below: "next_fighter_id s \<noteq> FighterIndex_MAX"
    by (auto simp: create_Signed split: if_splits)
  from assms show ?thesis
    by (auto simp: create_Signed advance_no_wrap(1) [OF below] split: if_splits)
qed

lemma create_success_effect_witness:
  "fighters (snd (create (Signed (7::nat)) 500 20 10 genesis)) 0 = Some (Fighter [500, 20, 10]) \<and>
   fighter_owner (snd (create (Signed (7::nat)) 500 20 10 genesis)) 0 = Some 7 \<and>
   unat (next_fighter_id (snd (create (Signed (7::nat)) 500 20 10 genesis))) = 1"
proof -
  have ok: "create (Signed (7::nat)) 500 20 10 genesis
            = (Inr (), snd (create (Signed (7::nat)) 500 20 10 genesis))"
    by (simp add: create_Signed genesis_def GetDefaultValue_def FighterIndex_MAX_def)
  show ?thesis
    using create_success_effect [OF ok] by (simp add: genesis_def GetDefaultValue_def)
qed

text \<open>
  C4. When the power-budget expression, evaluated in \<open>u16\<close>, exceeds 1000,
  \<open>create\<close> fails with \<open>TotalOverflow\<close> and the storage is unchanged.
\<close>

theorem create_total_overflow:
  "\<not> hp + atk * 10 + def * 10 \<le> 1000 \<Longrightarrow>
   create (Signed who) hp atk def s = (Inl (Module TotalOverflow), s)"
  by (simp add: create_Signed)

lemma create_total_overflow_witness:
  "create (Signed (2::nat)) 900 10 5 genesis = (Inl (Module TotalOverflow), genesis)"
  using create_total_overflow [of 900 10 5 2 genesis] by simp

text \<open>
  C5. When the budget check passes but \<open>def > 50\<close>, \<open>create\<close> fails with
  \<open>DefOverflow\<close> and the storage is unchanged: the budget check comes first.
\<close>

theorem create_def_overflow:
  "hp + atk * 10 + def * 10 \<le> 1000 \<Longrightarrow> 50 < def \<Longrightarrow>
   create (Signed who) hp atk def s = (Inl (Module DefOverflow), s)"
  by (simp add: create_Signed)

lemma create_def_overflow_witness:
  "create (Signed (2::nat)) 0 0 51 genesis = (Inl (Module DefOverflow), genesis)"
  using create_def_overflow [of 0 0 51 2 genesis] by simp

text \<open>
  C6. When both attribute checks pass but the counter is at \<open>u32::MAX\<close>,
  \<open>create\<close> fails with \<open>InvalidFighterId\<close> and the storage is unchanged.
\<close>

theorem create_id_exhausted:
  "hp + atk * 10 + def * 10 \<le> 1000 \<Longrightarrow> def \<le> 50 \<Longrightarrow>
   next_fighter_id s = FighterIndex_MAX \<Longrightarrow>
   create (Signed who) hp atk def s = (Inl (Module InvalidFighterId), s)"
  by (simp add: create_Signed)

lemma create_id_exhausted_witness:
  "create (Signed (2::nat)) 500 20 10 (genesis\<lparr>next_fighter_id := FighterIndex_MAX\<rparr>) =
     (Inl (Module InvalidFighterId), genesis\<lparr>next_fighter_id := FighterIndex_MAX\<rparr>)"
  using create_id_exhausted [of 500 20 10 "genesis\<lparr>next_fighter_id := FighterIndex_MAX\<rparr>" 2]
  by simp

text \<open>
  C13. The budget check of \<open>create\<close> wraps around: a signed \<open>create\<close> fails with
  \<open>TotalOverflow\<close> exactly when the exact sum \<open>hp + 10 atk + 10 def\<close>, taken modulo
  \<open>2^16\<close>, exceeds 1000.
\<close>

theorem power_check_wraps:
  "(create (Signed who) hp atk def s = (Inl (Module TotalOverflow), s)) =
     (1000 < (unat hp + unat atk * 10 + unat def * 10) mod 65536)"
proof -
  have "(hp + atk * 10 + def * 10 \<le> 1000) = ((unat hp + unat atk * 10 + unat def * 10) mod 65536 \<le> 1000)"
    by (simp add: word_le_nat_alt unat_power_expr)
  then show ?thesis by (auto simp: create_Signed)
qed

lemma create_checked_eq:
  "create_checked origin hp atk def s =
     (case origin of
        Signed who \<Rightarrow>
          if unat hp + unat atk * 10 + unat def * 10 < 65536
          then Some (create origin hp atk def s) else None
      | _ \<Rightarrow> Some (create origin hp atk def s))"
  by (cases origin)
     (simp_all add: create_checked_def create_def power_checked_eq ensure_signed_def)

text \<open>
  C25. In a build with overflow checks, \<open>create\<close> panics exactly when a signed
  caller's exact budget sum does not fit in \<open>u16\<close>, and otherwise behaves as the
  wrapping \<open>create\<close>; an unsigned origin is refused before the arithmetic.
\<close>

theorem create_checked_agrees:
  "create_checked origin hp atk def s =
     (case origin of
        Signed who \<Rightarrow>
          if unat hp + unat atk * 10 + unat def * 10 < 65536
          then Some (create origin hp atk def s) else None
      | _ \<Rightarrow> Some (create origin hp atk def s))"
  by (rule create_checked_eq)

end
