(* ===== verification/Fighter_Transfer.thy ===== *)
theory Fighter_Transfer
  imports Stores
begin

text \<open>
  The dispatchable \<open>transfer(origin, fighter_id, new_owner)\<close> (\<^verbatim>\<open>lib.rs\<close>
  lines 89-104): \<open>ensure_signed\<close>, existence through \<open>get_fighter\<close> (its
  error mapped to \<open>InvalidFighterId\<close>), the owner check
  \<open>Self::fighter_owner(fighter_id) == Some(who)\<close>, and the one write to
  \<open>FighterOwner\<close>. The body deposits no event: the
  \<open>FighterTransferred\<close> variant of \<open>Event\<close> is declared but never emitted.
  Since a transfer reads and writes the owner entry of its own index only, transfers
  of distinct fighters commute.
\<close>

definition transfer :: "'acc origin \<Rightarrow> FighterIndex \<Rightarrow> 'acc \<Rightarrow> ('acc, unit) pallet_op" where
  "transfer origin fighter_id new_owner =
     dbind (ensure_signed origin) (\<lambda>who.
     dbind (dmap_err (\<lambda>_. Module InvalidFighterId) (get_fighter fighter_id)) (\<lambda>_.
     dbind (dgets (\<lambda>s. fighter_owner s fighter_id)) (\<lambda>owner.
     dbind (densure (owner = Some who) (Module NotOwner)) (\<lambda>_.
     dbind (FighterOwner_insert fighter_id new_owner) (\<lambda>_.
     dret ())))))"

lemma transfer_Signed:
  "transfer (Signed who) fighter_id new_owner s =
     (if fighter_id \<notin> dom (fighters s) then (Inl (Module InvalidFighterId), s)
      else if fighter_owner s fighter_id \<noteq> Some who then (Inl (Module NotOwner), s)
      else (Inr (), s\<lparr>fighter_owner := (fighter_owner s)(fighter_id \<mapsto> new_owner)\<rparr>))"
  by (auto simp: transfer_def dbind_apply dmap_err_apply get_fighter_apply split: option.split)

lemma transfer_not_Signed:
  "(\<And>who. origin \<noteq> Signed who) \<Longrightarrow> transfer origin fighter_id new_owner s = (Inl BadOrigin, s)"
  by (simp add: transfer_def)

text \<open>
  C7. A transfer by the current owner of an existing fighter succeeds and changes only
  the owner entry of that fighter: \<open>Fighters\<close>, the counter, the other owners and the
  event log are untouched.
\<close>

theorem transfer_by_owner:
  "fighter_id \<in> dom (fighters s) \<Longrightarrow> fighter_owner s fighter_id = Some who \<Longrightarrow>
   transfer (Signed who) fighter_id new_owner s =
     (Inr (), s\<lparr>fighter_owner := (fighter_owner s)(fighter_id \<mapsto> new_owner)\<rparr>)"
  by (simp add: transfer_Signed)

lemma transfer_by_owner_witness:
  "transfer (Signed (2::nat)) 0 3
     (genesis\<lparr>fighters := [0 \<mapsto> Fighter [500, 20, 10]], fighter_owner := [0 \<mapsto> 2]\<rparr>) =
   (Inr (), genesis\<lparr>fighters := [0 \<mapsto> Fighter [500, 20, 10]], fighter_owner := [0 \<mapsto> 3]\<rparr>)"
  using transfer_by_owner [of 0 "genesis\<lparr>fighters := [0 \<mapsto> Fighter [500, 20, 10]],
                                           fighter_owner := [0 \<mapsto> (2::nat)]\<rparr>" 2 3]
  by simp

text \<open>
  C8. A signed caller that is not the recorded owner of an existing fighter gets
  \<open>NotOwner\<close>, and the storage is unchanged.
\<close>

theorem transfer_not_owner:
  "fighter_id \<in> dom (fighters s) \<Longrightarrow> fighter_owner s fighter_id \<noteq> Some who \<Longrightarrow>
   transfer (Signed who) fighter_id new_owner s = (Inl (Module NotOwner), s)"
  by (simp add: transfer_Signed)

lemma transfer_not_owner_witness:
  "transfer (Signed (4::nat)) 0 4
     (genesis\<lparr>fighters := [0 \<mapsto> Fighter [500, 20, 10]], fighter_owner := [0 \<mapsto> 2]\<rparr>) =
   (Inl (Module NotOwner),
    genesis\<lparr>fighters := [0 \<mapsto> Fighter [500, 20, 10]], fighter_owner := [0 \<mapsto> 2]\<rparr>)"
  using transfer_not_owner [of 0 "genesis\<lparr>fighters := [0 \<mapsto> Fighter [500, 20, 10]],
                                            fighter_owner := [0 \<mapsto> (2::nat)]\<rparr>" 4 4]
  by simp

text \<open>
  C9. A transfer of an index with no stored fighter fails with \<open>InvalidFighterId\<close>
  for every signed caller and every new owner, and the storage is unchanged.
\<close>

theorem transfer_unknown_fighter:
  "fighter_id \<notin> dom (fighters s) \<Longrightarrow>
   transfer (Signed who) fighter_id new_owner s = (Inl (Module InvalidFighterId), s)"
  by (simp add: transfer_Signed)

lemma transfer_unknown_fighter_witness:
  "transfer (Signed (2::nat)) 5 3 genesis = (Inl (Module InvalidFighterId), genesis)"
  using transfer_unknown_fighter [of 5 "genesis :: nat pallet_state" 2 3]
  by (simp add: genesis_def)

text \<open>
  \<open>transfer\<close> never deposits an event, whatever its origin, index, new owner
  and outcome.
\<close>

theorem transfer_emits_no_event:
  "events (snd (transfer origin fighter_id new_owner s)) = events s"
  by (cases origin) (simp_all add: transfer_Signed transfer_not_Signed)

text \<open>
  A transfer reads and writes the owner entry of its own index only: transfers of
  distinct fighters commute, and neither changes the other's result.
\<close>

lemma transfer_commute_state:
  "i \<noteq> j \<Longrightarrow>
   snd (transfer origin_i i new_i (snd (transfer origin_j j new_j s))) =
   snd (transfer origin_j j new_j (snd (transfer origin_i i new_i s)))"
  by (cases origin_i; cases origin_j) (auto simp: transfer_Signed transfer_not_Signed fun_upd_twist)

lemma transfer_result_independent:
  "i \<noteq> j \<Longrightarrow>
   fst (transfer origin_i i new_i (snd (transfer origin_j j new_j s))) = fst (transfer origin_i i new_i s)"
  by (cases origin_i; cases origin_j) (auto simp: transfer_Signed transfer_not_Signed)

end
