(* ===== verification/Runtime.thy ===== *)
theory Runtime
  imports Fighter_Create Fighter_Transfer
begin

text \<open>
  The pallet as the runtime sees it. \<open>#[pallet::call]\<close> (\<^verbatim>\<open>lib.rs\<close> lines
  71-105) generates a \<open>Call\<close> enum with one variant per dispatchable and a
  \<open>dispatch\<close> that routes a call with its origin to the function body. The host
  executes the extrinsics of a block one after the other (\<open>run\<close>), and may wrap a
  dispatch in a storage transaction that discards its writes when it fails
  (\<open>with_transaction\<close>). The states reachable from \<open>genesis\<close> by any sequence of
  dispatches are an inductive set; the registry invariant and the event-log invariant
  hold in all of them. A block run in a build with overflow checks
  (\<open>run_checked\<close>) panics exactly when one of its creates overflows, and is the
  release run otherwise; valid creates keep succeeding until the id space is
  exhausted; and blocks of transfers on disjoint fighters commute.
\<close>

datatype 'acc call =
    Call_create u16 u16 u16
  | Call_transfer FighterIndex 'acc

fun dispatch :: "'acc origin \<Rightarrow> 'acc call \<Rightarrow> ('acc, unit) pallet_op" where
  "dispatch origin (Call_create hp atk def) = create origin hp atk def"
| "dispatch origin (Call_transfer fighter_id new_owner) = transfer origin fighter_id new_owner"

text \<open>
  \<open>frame_support::storage::with_transaction\<close> as used by \<open>#[transactional]\<close>
  dispatch: commit the writes on \<open>Ok\<close>, roll them back on \<open>Err\<close>.
\<close>

definition with_transaction :: "('e, 's, 'a) exn_st \<Rightarrow> ('e, 's, 'a) exn_st" where
  "with_transaction m = (\<lambda>s. case m s of (Inl e, _) \<Rightarrow> (Inl e, s) | (Inr a, s') \<Rightarrow> (Inr a, s'))"

text \<open>The extrinsics of a block, applied in order; each result is recorded.\<close>

fun run :: "('acc origin \<times> 'acc call) list \<Rightarrow> 'acc pallet_state \<Rightarrow>
            (dispatch_error + unit) list \<times> 'acc pallet_state" where
  "run [] s = ([], s)"
| "run ((origin, c) # xs) s =
     (let (r, s') = dispatch origin c s; (rs, s'') = run xs s' in (r # rs, s''))"

text \<open>
  The same dispatch and block execution in a build with overflow checks: \<open>None\<close> is a
  panic, which aborts the execution of the whole block.
\<close>

fun dispatch_checked :: "'acc origin \<Rightarrow> 'acc call \<Rightarrow> 'acc pallet_state \<Rightarrow>
                         ((dispatch_error + unit) \<times> 'acc pallet_state) option" where
  "dispatch_checked origin (Call_create hp atk def) s = create_checked origin hp atk def s"
| "dispatch_checked origin (Call_transfer fighter_id new_owner) s =
     Some (transfer origin fighter_id new_owner s)"

fun run_checked :: "('acc origin \<times> 'acc call) list \<Rightarrow> 'acc pallet_state \<Rightarrow>
                    ((dispatch_error + unit) list \<times> 'acc pallet_state) option" where
  "run_checked [] s = Some ([], s)"
| "run_checked ((origin, c) # xs) s =
     Option.bind (dispatch_checked origin c s) (\<lambda>(r, s').
       map_option (\<lambda>(rs, s''). (r # rs, s'')) (run_checked xs s'))"

text \<open>An extrinsic whose evaluation panics under overflow checks.\<close>

fun panics :: "'acc origin \<times> 'acc call \<Rightarrow> bool" where
  "panics (Signed who, Call_create hp atk def) = (\<not> unat hp + unat atk * 10 + unat def * 10 < 65536)"
| "panics (origin, c) = False"

text \<open>A block of transfers, each given by its origin, index and new owner.\<close>

abbreviation transfer_calls :: "('acc origin \<times> FighterIndex \<times> 'acc) list \<Rightarrow> ('acc origin \<times> 'acc call) list" where
  "transfer_calls xs \<equiv> map (\<lambda>(origin, i, new_owner). (origin, Call_transfer i new_owner)) xs"

abbreviation transfer_indices :: "('acc origin \<times> FighterIndex \<times> 'acc) list \<Rightarrow> FighterIndex set" where
  "transfer_indices xs \<equiv> (\<lambda>(origin, i, new_owner). i) ` set xs"

inductive reachable :: "'acc pallet_state \<Rightarrow> bool" where
  genesis: "reachable genesis"
| step: "reachable s \<Longrightarrow> dispatch origin c s = (r, s') \<Longrightarrow> reachable s'"

text \<open>
  The invariant of the registry: the keys of \<open>Fighters\<close> are exactly the indices
  below \<open>NextFighterId\<close>, \<open>FighterOwner\<close> has the same keys, and every stored
  fighter is a three-element array that passed the two checks of \<open>create\<close>.
\<close>

fun fighter_wf :: "fighter \<Rightarrow> bool" where
  "fighter_wf (Fighter [hp, atk, def]) = (hp + atk * 10 + def * 10 \<le> 1000 \<and> def \<le> 50)"
| "fighter_wf (Fighter _) = False"

definition registry_inv :: "'acc pallet_state \<Rightarrow> bool" where
  "registry_inv s \<longleftrightarrow>
     (\<forall>i. (i \<in> dom (fighters s)) = (i < next_fighter_id s)) \<and>
     dom (fighter_owner s) = dom (fighters s) \<and>
     (\<forall>f \<in> ran (fighters s). fighter_wf f)"

text \<open>
  The event log as the storage sees it: each \<open>FighterCreated\<close> event gives the
  index and the fighter it announced.
\<close>

fun created_entry :: "'acc event \<Rightarrow> (FighterIndex \<times> fighter) option" where
  "created_entry (FighterCreated who i f) = Some (i, f)"
| "created_entry (FighterTransferred prev new i) = None"

definition event_log_inv :: "'acc pallet_state \<Rightarrow> bool" where
  "event_log_inv s \<longleftrightarrow>
     map created_entry (events s) =
     map (\<lambda>k. Some (of_nat k, the (fighters s (of_nat k)))) [0..<unat (next_fighter_id s)]"

subsection \<open>Helper facts\<close>

lemma less_succ_below_max:
  "n \<noteq> FighterIndex_MAX \<Longrightarrow> (i < n + 1) = (i \<le> n)"
  for i n :: FighterIndex
  by (simp add: word_less_nat_alt word_le_nat_alt advance_no_wrap(1) less_Suc_eq_le)

lemma fighter_wf_iff:
  "fighter_wf (Fighter dna) =
     (length dna = 3 \<and> dna ! 2 \<le> 50 \<and> dna ! 0 + dna ! 1 * 10 + dna ! 2 * 10 \<le> 1000)"
proof (cases "length dna = 3")
  case True
  then obtain hp atk def where "dna = [hp, atk, def]"
    by (auto simp: length_Suc_conv numeral_3_eq_3)
  then show ?thesis by auto
next
  case False
  then have "\<not> fighter_wf (Fighter dna)"
    by (cases "Fighter dna" rule: fighter_wf.cases) auto
  with False show ?thesis by simp
qed

lemma run_Cons_eq:
  "run ((origin, c) # xs) s = (fst (dispatch origin c s) # fst (run xs (snd (dispatch origin c s))),
                               snd (run xs (snd (dispatch origin c s))))"
  by (simp split: prod.split)

lemma dispatch_Inl_unchanged:
  assumes "dispatch origin c s = (Inl e, s')"
  shows "s' = s"
proof (cases c)
  case (Call_create hp atk def)
  then show ?thesis
    using assms by (cases origin) (auto simp: create_Signed create_not_Signed split: if_splits)
next
  case (Call_transfer fighter_id new_owner)
  then show ?thesis
    using assms by (cases origin) (auto simp: transfer_Signed transfer_not_Signed split: if_splits)
qed

lemma dispatch_bad_origin_state:
  "dispatch Root c s = (Inl BadOrigin, s)" "dispatch NoneOrigin c s = (Inl BadOrigin, s)"
  by (cases c; simp add: create_not_Signed transfer_not_Signed)+

lemma genesis_inv: "registry_inv genesis"
  by (simp add: registry_inv_def genesis_def GetDefaultValue_def)

lemma create_inv:
  assumes inv: "registry_inv s" and ok: "create origin hp atk def s = (r, s')"
  shows "registry_inv s'"
proof (cases "s' = s")
  case True
  with inv show ?thesis by simp
next
  case False
  then obtain who where o: "origin = Signed who"
    using ok by (cases origin) (auto simp: create_not_Signed)
  let ?n = "next_fighter_id s"
  from False ok o have chk: "hp + atk * 10 + def * 10 \<le> 1000" "def \<le> 50" "?n \<noteq> FighterIndex_MAX"
    by (auto simp: create_Signed split: if_splits)
  have fresh: "?n \<notin> dom (fighters s)" using inv by (simp add: registry_inv_def)
  from ok o chk have s': "s' = s\<lparr>fighters := (fighters s)(?n \<mapsto> Fighter [hp, atk, def]),
      fighter_owner := (fighter_owner s)(?n \<mapsto> who), next_fighter_id := ?n + 1,
      events := events s @ [FighterCreated who ?n (Fighter [hp, atk, def])]\<rparr>"
    by (simp add: create_Signed)
  have "ran (fighters s') = insert (Fighter [hp, atk, def]) (ran (fighters s))"
    using fresh s' by (simp add: ran_map_upd domIff)
  with inv chk s' show ?thesis
    by (auto simp: registry_inv_def less_succ_below_max order_le_less)
qed

lemma transfer_inv:
  assumes inv: "registry_inv s" and ok: "transfer origin fighter_id new_owner s = (r, s')"
  shows "registry_inv s'"
proof (cases "s' = s")
  case True
  with inv show ?thesis by simp
next
  case False
  then obtain who where o: "origin = Signed who"
    using ok by (cases origin) (auto simp: transfer_not_Signed)
  from False ok o have "fighter_id \<in> dom (fighters s)"
    and s': "s' = s\<lparr>fighter_owner := (fighter_owner s)(fighter_id \<mapsto> new_owner)\<rparr>"
    by (auto simp: transfer_Signed split: if_splits)
  with inv show ?thesis by (auto simp: registry_inv_def)
qed

lemma dispatch_inv: "registry_inv s \<Longrightarrow> dispatch origin c s = (r, s') \<Longrightarrow> registry_inv s'"
  by (cases c) (auto intro: create_inv transfer_inv)

lemma run_inv: "registry_inv s \<Longrightarrow> registry_inv (snd (run xs s))"
proof (induction xs arbitrary: s)
  case Nil
  then show ?case by simp
next
  case (Cons x xs)
  obtain origin c where x: "x = (origin, c)" by fastforce
  from Cons.prems have "registry_inv (snd (dispatch origin c s))"
    by (metis dispatch_inv prod.collapse)
  then have "registry_inv (snd (run xs (snd (dispatch origin c s))))" by (rule Cons.IH)
  with x show ?case by (simp del: run.simps(2) add: run_Cons_eq)
qed

lemma reachable_run: "reachable s \<Longrightarrow> reachable (snd (run xs s))"
proof (induction xs arbitrary: s)
  case Nil
  then show ?case by simp
next
  case (Cons x xs)
  obtain origin c where x: "x = (origin, c)" by fastforce
  from Cons.prems have "reachable (snd (dispatch origin c s))"
    by (metis reachable.step prod.collapse)
  then have "reachable (snd (run xs (snd (dispatch origin c s))))" by (rule Cons.IH)
  with x show ?case by (simp del: run.simps(2) add: run_Cons_eq)
qed

lemma dispatch_grows:
  assumes inv: "registry_inv s" and d: "dispatch origin c s = (r, s')"
  shows "fighters s \<subseteq>\<^sub>m fighters s' \<and> next_fighter_id s \<le> next_fighter_id s'"
proof (cases "\<exists>who hp atk def. origin = Signed who \<and> c = Call_create hp atk def \<and> s' \<noteq> s")
  case True
  then obtain who hp atk def where o: "origin = Signed who" and c: "c = Call_create hp atk def"
    and ch: "s' \<noteq> s" by blast
  let ?n = "next_fighter_id s"
  from d o c ch have below: "?n \<noteq> FighterIndex_MAX"
    and s': "fighters s' = (fighters s)(?n \<mapsto> Fighter [hp, atk, def])" "next_fighter_id s' = ?n + 1"
    by (auto simp: create_Signed split: if_splits)
  have "?n \<notin> dom (fighters s)" using inv by (simp add: registry_inv_def)
  then have "fighters s \<subseteq>\<^sub>m fighters s'" by (auto simp: s' map_le_def)
  moreover have "?n \<le> ?n + 1" using advance_no_wrap(2) [OF below] by simp
  ultimately show ?thesis by (simp add: s')
next
  case False
  then have "fighters s' = fighters s \<and> next_fighter_id s' = next_fighter_id s"
    using d by (cases c; cases origin)
      (auto simp: create_Signed create_not_Signed transfer_Signed transfer_not_Signed split: if_splits)
  then show ?thesis by simp
qed

lemma dispatch_at_max:
  "next_fighter_id s = FighterIndex_MAX \<Longrightarrow> dispatch origin c s = (r, s') \<Longrightarrow>
   next_fighter_id s' = FighterIndex_MAX \<and> fighters s' = fighters s"
  by (cases c; cases origin)
    (auto simp: create_Signed create_not_Signed transfer_Signed transfer_not_Signed split: if_splits)

lemma run_append: "snd (run (xs @ ys) s) = snd (run ys (snd (run xs s)))"
proof (induction xs arbitrary: s)
  case Nil
  then show ?case by simp
next
  case (Cons x xs)
  obtain origin c where "x = (origin, c)" by fastforce
  with Cons.IH show ?case by (simp del: run.simps(2) add: run_Cons_eq)
qed

lemma run_fst_append:
  "fst (run (xs @ ys) s) = fst (run xs s) @ fst (run ys (snd (run xs s)))"
proof (induction xs arbitrary: s)
  case Nil
  then show ?case by simp
next
  case (Cons x xs)
  then show ?case by (cases x) (simp del: run.simps(2) add: run_Cons_eq)
qed

text \<open>
  A transfer moves past a block of transfers on other fighters: the final storage is
  the same, and neither the block's results nor the transfer's result change.
\<close>

lemma transfer_past_block:
  assumes "i \<notin> transfer_indices ys"
  shows "snd (run (transfer_calls ys) (snd (transfer origin i new_owner s))) =
           snd (transfer origin i new_owner (snd (run (transfer_calls ys) s))) \<and>
         fst (run (transfer_calls ys) (snd (transfer origin i new_owner s))) =
           fst (run (transfer_calls ys) s) \<and>
         fst (transfer origin i new_owner (snd (run (transfer_calls ys) s))) =
           fst (transfer origin i new_owner s)"
  using assms
proof (induction ys arbitrary: s)
  case Nil
  then show ?case by simp
next
  case (Cons y ys)
  obtain origin_j j new_j where y: "y = (origin_j, j, new_j)" by (cases y) auto
  have ij: "i \<noteq> j" and rest: "i \<notin> transfer_indices ys" using Cons.prems y by auto
  let ?t = "transfer origin i new_owner" and ?u = "transfer origin_j j new_j"
  have swap: "snd (?u (snd (?t s))) = snd (?t (snd (?u s)))"
    using ij by (rule transfer_commute_state [symmetric])
  have ru: "fst (?u (snd (?t s))) = fst (?u s)"
    using ij by (intro transfer_result_independent) simp
  have rt: "fst (?t (snd (?u s))) = fst (?t s)"
    using ij by (rule transfer_result_independent)
  note IH = Cons.IH [OF rest, of "snd (?u s)"]
  show ?case
    using IH swap ru rt y by (simp del: run.simps(2) add: run_Cons_eq)
qed

lemma run_single: "snd (run [(origin, c)] s) = snd (dispatch origin c s)"
  by (simp split: prod.split)

lemma event_log_genesis: "event_log_inv genesis"
  by (simp add: event_log_inv_def genesis_def GetDefaultValue_def)

lemma dispatch_event_log:
  assumes inv: "event_log_inv s" and d: "dispatch origin c s = (r, s')"
  shows "event_log_inv s'"
proof (cases "\<exists>who hp atk def. origin = Signed who \<and> c = Call_create hp atk def \<and> s' \<noteq> s")
  case True
  then obtain who hp atk def where o: "origin = Signed who" and c: "c = Call_create hp atk def"
    and ch: "s' \<noteq> s" by blast
  let ?n = "next_fighter_id s"
  from d o c ch have below: "?n \<noteq> FighterIndex_MAX"
    and s': "s' = s\<lparr>fighters := (fighters s)(?n \<mapsto> Fighter [hp, atk, def]),
      fighter_owner := (fighter_owner s)(?n \<mapsto> who), next_fighter_id := ?n + 1,
      events := events s @ [FighterCreated who ?n (Fighter [hp, atk, def])]\<rparr>"
    by (auto simp: create_Signed split: if_splits)
  have old: "map (\<lambda>k. Some (of_nat k, the (fighters s' (of_nat k)))) [0..<unat ?n] =
             map (\<lambda>k. Some (of_nat k, the (fighters s (of_nat k)))) [0..<unat ?n]"
    by (simp add: s' of_nat_below_ne)
  show ?thesis
    using inv old by (simp add: event_log_inv_def s' advance_no_wrap(1) [OF below])
next
  case False
  then have "fighters s' = fighters s \<and> next_fighter_id s' = next_fighter_id s \<and> events s' = events s"
    using d by (cases c; cases origin)
      (auto simp: create_Signed create_not_Signed transfer_Signed transfer_not_Signed split: if_splits)
  with inv show ?thesis by (simp add: event_log_inv_def)
qed

lemma reachable_event_log: "reachable s \<Longrightarrow> event_log_inv s"
  by (induction rule: reachable.induct) (auto intro: event_log_genesis dispatch_event_log)

lemma reachable_inv: "reachable s \<Longrightarrow> registry_inv s"
proof (induction rule: reachable.induct)
  case genesis
  show ?case by (rule genesis_inv)
next
  case (step s origin c r s')
  then show ?case by (blast intro: dispatch_inv)
qed

text \<open>One call in a build with overflow checks: a panic, or the release-build call.\<close>

lemma dispatch_checked_eq:
  "dispatch_checked origin c s = (if panics (origin, c) then None else Some (dispatch origin c s))"
  by (cases c; cases origin) (simp_all add: create_checked_eq)

text \<open>
  C1. In every state reachable from genesis by dispatched calls, \<open>Fighters\<close> and
  \<open>FighterOwner\<close> have the same keys, and these are exactly the indices below
  \<open>NextFighterId\<close>.
\<close>

theorem reachable_registry_keys:
  assumes "reachable s"
  shows "dom (fighter_owner s) = dom (fighters s) \<and> dom (fighters s) = {i. i < next_fighter_id s}"
  using reachable_inv [OF assms] by (auto simp: registry_inv_def)

lemma reachable_registry_keys_witness:
  "dom (fighter_owner (snd (run [(Signed (2::nat), Call_create 500 20 10)] genesis))) =
     dom (fighters (snd (run [(Signed (2::nat), Call_create 500 20 10)] genesis))) \<and>
   dom (fighters (snd (run [(Signed (2::nat), Call_create 500 20 10)] genesis))) =
     {i. i < next_fighter_id (snd (run [(Signed (2::nat), Call_create 500 20 10)] genesis))}"
  by (rule reachable_registry_keys [OF reachable_run [OF reachable.genesis]])

text \<open>
  C10. Every dispatch is unaffected by a surrounding storage transaction: the calls do
  all their checks before their first write, so a failing call has written nothing and
  there is nothing to roll back.
\<close>

theorem dispatch_transactional: "with_transaction (dispatch origin c) = dispatch origin c"
proof
  fix s
  show "with_transaction (dispatch origin c) s = dispatch origin c s"
  proof (cases "dispatch origin c s")
    case (Pair r s')
    then show ?thesis
      by (cases r) (auto simp: with_transaction_def dest: dispatch_Inl_unchanged)
  qed
qed

text \<open>
  C14. A successful \<open>create\<close> from a registry satisfying the invariant issues an id
  greater than every id issued before, adds exactly that key, and keeps the invariant.
\<close>

theorem create_fresh_id:
  assumes inv: "registry_inv s" and ok: "create (Signed who) hp atk def s = (Inr (), s')"
  shows "(\<forall>i \<in> dom (fighters s). i < next_fighter_id s) \<and>
         dom (fighters s') = insert (next_fighter_id s) (dom (fighters s)) \<and>
         registry_inv s'"
proof -
  have "\<forall>i \<in> dom (fighters s). i < next_fighter_id s" using inv by (simp add: registry_inv_def)
  moreover have "dom (fighters s') = insert (next_fighter_id s) (dom (fighters s))"
    using ok by (auto simp: create_Signed split: if_splits)
  moreover have "registry_inv s'" using inv ok by (rule create_inv)
  ultimately show ?thesis by blast
qed

lemma create_fresh_id_witness:
  "dom (fighters (snd (create (Signed (2::nat)) 500 20 10 genesis))) = {0}"
proof -
  have ok: "create (Signed (2::nat)) 500 20 10 genesis
            = (Inr (), snd (create (Signed (2::nat)) 500 20 10 genesis))"
    by (simp add: create_Signed genesis_def GetDefaultValue_def FighterIndex_MAX_def)
  from create_fresh_id [OF genesis_inv ok] show ?thesis
    by (simp add: genesis_def GetDefaultValue_def)
qed

text \<open>
  C15. Along any sequence of dispatched calls from a registry satisfying the invariant,
  \<open>Fighters\<close> only grows (no entry is removed or changed) and \<open>NextFighterId\<close>
  never decreases.
\<close>

theorem run_append_only:
  assumes "registry_inv s"
  shows "fighters s \<subseteq>\<^sub>m fighters (snd (run xs s)) \<and>
         next_fighter_id s \<le> next_fighter_id (snd (run xs s))"
  using assms
proof (induction xs arbitrary: s)
  case Nil
  then show ?case by simp
next
  case (Cons x xs)
  obtain origin c where x: "x = (origin, c)" by fastforce
  let ?s1 = "snd (dispatch origin c s)"
  have step: "fighters s \<subseteq>\<^sub>m fighters ?s1 \<and> next_fighter_id s \<le> next_fighter_id ?s1"
    using Cons.prems by (metis dispatch_grows prod.collapse)
  have "registry_inv ?s1" using Cons.prems by (metis dispatch_inv prod.collapse)
  then have "fighters ?s1 \<subseteq>\<^sub>m fighters (snd (run xs ?s1)) \<and>
             next_fighter_id ?s1 \<le> next_fighter_id (snd (run xs ?s1))"
    by (rule Cons.IH)
  with step x show ?case by (auto simp del: run.simps(2) simp add: run_Cons_eq intro: map_le_trans)
qed

lemma run_append_only_witness:
  "fighters (genesis :: nat pallet_state) \<subseteq>\<^sub>m
     fighters (snd (run [(Signed (2::nat), Call_create 500 20 10), (Signed 2, Call_transfer 0 3)] genesis)) \<and>
   next_fighter_id (genesis :: nat pallet_state) \<le>
     next_fighter_id (snd (run [(Signed (2::nat), Call_create 500 20 10), (Signed 2, Call_transfer 0 3)] genesis))"
  by (rule run_append_only [OF genesis_inv])

text \<open>
  C16. Exhaustion is terminal: once \<open>NextFighterId\<close> is \<open>u32::MAX\<close>, no sequence
  of calls changes it or adds a fighter.
\<close>

theorem run_exhausted_terminal:
  assumes "next_fighter_id s = FighterIndex_MAX"
  shows "next_fighter_id (snd (run xs s)) = FighterIndex_MAX \<and> fighters (snd (run xs s)) = fighters s"
  using assms
proof (induction xs arbitrary: s)
  case Nil
  then show ?case by simp
next
  case (Cons x xs)
  obtain origin c where x: "x = (origin, c)" by fastforce
  let ?s1 = "snd (dispatch origin c s)"
  have "next_fighter_id ?s1 = FighterIndex_MAX \<and> fighters ?s1 = fighters s"
    using Cons.prems by (metis dispatch_at_max prod.collapse)
  with Cons.IH [of ?s1] x show ?case by (simp del: run.simps(2) add: run_Cons_eq)
qed

lemma run_exhausted_terminal_witness:
  "next_fighter_id (snd (run [(Signed (2::nat), Call_create 1 1 1)]
      (genesis\<lparr>next_fighter_id := FighterIndex_MAX\<rparr>))) = FighterIndex_MAX \<and>
   fighters (snd (run [(Signed (2::nat), Call_create 1 1 1)]
      (genesis\<lparr>next_fighter_id := FighterIndex_MAX\<rparr>))) =
   fighters (genesis\<lparr>next_fighter_id := FighterIndex_MAX\<rparr> :: nat pallet_state)"
  by (rule run_exhausted_terminal) simp

text \<open>
  C17. A dispatched call appends exactly one event, \<open>FighterCreated\<close> with the
  caller, the issued id and the fighter, when it is a successful \<open>create\<close>, and
  none otherwise.
\<close>

theorem dispatch_events:
  assumes "dispatch origin c s = (r, s')"
  shows "events s' =
    (case (origin, c, r) of
       (Signed who, Call_create hp atk def, Inr _) \<Rightarrow>
         events s @ [FighterCreated who (next_fighter_id s) (Fighter [hp, atk, def])]
     | _ \<Rightarrow> events s)"
  using assms
  by (cases c; cases origin)
    (auto simp: create_Signed create_not_Signed transfer_Signed transfer_not_Signed split: if_splits)

lemma dispatch_events_witness:
  "events (snd (dispatch (Signed (2::nat)) (Call_create 500 20 10) genesis)) =
     [FighterCreated 2 0 (Fighter [500, 20, 10])]"
proof -
  have "dispatch (Signed (2::nat)) (Call_create 500 20 10) genesis =
          (Inr (), snd (dispatch (Signed (2::nat)) (Call_create 500 20 10) genesis))"
    by (simp add: create_Signed genesis_def GetDefaultValue_def FighterIndex_MAX_def)
  from dispatch_events [OF this] show ?thesis
    by (simp add: create_Signed genesis_def GetDefaultValue_def FighterIndex_MAX_def)
qed

text \<open>
  C20. Every fighter stored in a reachable state is a three-element array
  \<open>[hp, atk, def]\<close> with \<open>def \<le> 50\<close> and whose budget expression, in \<open>u16\<close>,
  is at most 1000.
\<close>

theorem reachable_fighters_wf:
  assumes "reachable s" and "fighters s i = Some (Fighter dna)"
  shows "length dna = 3 \<and> dna ! 2 \<le> 50 \<and> dna ! 0 + dna ! 1 * 10 + dna ! 2 * 10 \<le> 1000"
proof -
  have "fighter_wf (Fighter dna)"
    using reachable_inv [OF assms(1)] assms(2) by (auto simp: registry_inv_def ran_def)
  then show ?thesis by (simp only: fighter_wf_iff)
qed

lemma reachable_fighters_wf_witness:
  "length [500, 20, 10 :: u16] = 3 \<and> [500, 20, 10 :: u16] ! 2 \<le> 50 \<and>
   [500, 20, 10 :: u16] ! 0 + [500, 20, 10 :: u16] ! 1 * 10 + [500, 20, 10 :: u16] ! 2 * 10 \<le> 1000"
proof -
  let ?s = "snd (run [(Signed (2::nat), Call_create 500 20 10)] genesis)"
  have r: "reachable ?s" by (rule reachable_run [OF reachable.genesis])
  have "fighters ?s 0 = Some (Fighter [500, 20, 10])"
    by (simp add: create_Signed genesis_def GetDefaultValue_def FighterIndex_MAX_def)
  from reachable_fighters_wf [OF r this] show ?thesis .
qed

text \<open>
  C21. A call whose origin is not signed fails with \<open>BadOrigin\<close> and changes nothing.
\<close>

theorem dispatch_bad_origin:
  "(\<And>who. origin \<noteq> Signed who) \<Longrightarrow> dispatch origin c s = (Inl BadOrigin, s)"
  by (cases c) (simp_all add: create_not_Signed transfer_not_Signed)

lemma dispatch_bad_origin_witness:
  "dispatch Root (Call_transfer 0 (3::nat)) genesis = (Inl BadOrigin, genesis)"
  by (rule dispatch_bad_origin) simp

text \<open>
  C23. Ownership changes only in two ways: a successful \<open>create\<close> gives the new index
  to its caller, and a \<open>transfer\<close> by the recorded owner gives the fighter to the
  requested new owner. No other call, and no other caller, changes an owner entry.
\<close>

theorem dispatch_owner_change:
  assumes "dispatch origin c s = (r, s')" and "fighter_owner s' i \<noteq> fighter_owner s i"
  shows "(\<exists>who hp atk def. origin = Signed who \<and> c = Call_create hp atk def \<and>
            i = next_fighter_id s \<and> fighter_owner s' i = Some who) \<or>
         (\<exists>who new_owner. origin = Signed who \<and> c = Call_transfer i new_owner \<and>
            fighter_owner s i = Some who \<and> fighter_owner s' i = Some new_owner)"
  using assms
  by (cases c; cases origin)
    (auto simp: create_Signed create_not_Signed transfer_Signed transfer_not_Signed split: if_splits)

lemma dispatch_owner_change_witness:
  "(\<exists>who new_owner. Signed (1::nat) = Signed who \<and> Call_transfer 0 (2::nat) = Call_transfer 0 new_owner \<and>
      [0 \<mapsto> (1::nat)] (0::FighterIndex) = Some who \<and> [0 \<mapsto> (2::nat)] (0::FighterIndex) = Some new_owner)"
proof -
  let ?s = "genesis\<lparr>fighters := [0 \<mapsto> Fighter [500, 20, 10]], fighter_owner := [0 \<mapsto> (1::nat)]\<rparr>"
  have d: "dispatch (Signed (1::nat)) (Call_transfer 0 2) ?s =
           (Inr (), ?s\<lparr>fighter_owner := [0 \<mapsto> 2]\<rparr>)"
    by (simp add: transfer_Signed)
  have "fighter_owner (?s\<lparr>fighter_owner := [0 \<mapsto> 2]\<rparr>) 0 \<noteq> fighter_owner ?s 0" by simp
  from dispatch_owner_change [OF d this] show ?thesis by (simp add: genesis_def)
qed

text \<open>
  C24. In every reachable state the event log has one \<open>FighterCreated\<close> event per
  issued index, in index order, each announcing exactly the fighter stored under that
  index; there is no other event.
\<close>

theorem reachable_event_log_matches:
  assumes "reachable s" and "k < unat (next_fighter_id s)"
  shows "length (events s) = unat (next_fighter_id s) \<and>
         (\<exists>who f. events s ! k = FighterCreated who (of_nat k) f \<and> fighters s (of_nat k) = Some f)"
proof -
  have log: "event_log_inv s" and inv: "registry_inv s"
    using assms(1) by (rule reachable_event_log, rule reachable_inv)
  let ?rhs = "map (\<lambda>k. Some (of_nat k :: FighterIndex, the (fighters s (of_nat k)))) [0..<unat (next_fighter_id s)]"
  from log have eq: "map created_entry (events s) = ?rhs" by (simp only: event_log_inv_def)
  then have "length (map created_entry (events s)) = length ?rhs" by (rule arg_cong)
  then have len: "length (events s) = unat (next_fighter_id s)" by simp
  from eq have "map created_entry (events s) ! k = ?rhs ! k" by (rule arg_cong)
  with assms(2) len have "created_entry (events s ! k) = Some (of_nat k, the (fighters s (of_nat k)))"
    by simp
  moreover have "of_nat k \<in> dom (fighters s)"
    using inv assms(2) by (simp add: registry_inv_def word_less_nat_alt unat_of_nat_below)
  ultimately show ?thesis using len
    by (cases "events s ! k") auto
qed

lemma reachable_event_log_matches_witness:
  "length (events (snd (run [(Signed (2::nat), Call_create 500 20 10)] genesis))) = 1 \<and>
   events (snd (run [(Signed (2::nat), Call_create 500 20 10)] genesis)) ! 0 =
     FighterCreated 2 0 (Fighter [500, 20, 10])"
proof -
  let ?s = "snd (run [(Signed (2::nat), Call_create 500 20 10)] genesis)"
  have n: "next_fighter_id ?s = 1"
    by (simp add: create_Signed genesis_def GetDefaultValue_def FighterIndex_MAX_def)
  have "0 < unat (next_fighter_id ?s)" unfolding n by simp
  from reachable_event_log_matches [OF reachable_run [OF reachable.genesis] this] n
  show ?thesis by (simp add: create_Signed genesis_def GetDefaultValue_def FighterIndex_MAX_def)
qed

text \<open>
  C27. In a build with overflow checks, a block of extrinsics panics exactly when it
  contains a signed \<open>create\<close> whose exact budget sum overflows \<open>u16\<close>; otherwise it
  executes exactly as in a release build.
\<close>

theorem run_checked_eq:
  "run_checked xs s = (if list_ex panics xs then None else Some (run xs s))"
proof (induction xs arbitrary: s)
  case Nil
  then show ?case by simp
next
  case (Cons x xs)
  obtain origin c where x: "x = (origin, c)" by fastforce
  show ?case
    using Cons.IH dispatch_checked_eq [of origin c s] x by (auto split: prod.split)
qed

lemma run_checked_eq_witness:
  "run_checked [(Signed (2::nat), Call_create 500 20 10), (Signed 2, Call_create 0 6554 0)] genesis = None \<and>
   run_checked [(Signed (2::nat), Call_create 500 20 10)] genesis =
     Some (run [(Signed (2::nat), Call_create 500 20 10)] genesis)"
  by (simp add: run_checked_eq del: run.simps)

text \<open>
  C30. Ids are issued until the id space is exhausted: from any state with room for
  \<open>k\<close> more indices, \<open>k\<close> signed creates whose inputs pass both checks all succeed,
  and the counter advances by exactly \<open>k\<close>.
\<close>

theorem run_creates_progress:
  assumes room: "unat (next_fighter_id s) + k \<le> unat FighterIndex_MAX"
    and budget: "hp + atk * 10 + def * 10 \<le> 1000" and cap: "def \<le> 50"
  shows "fst (run (replicate k (Signed who, Call_create hp atk def)) s) = replicate k (Inr ()) \<and>
         unat (next_fighter_id (snd (run (replicate k (Signed who, Call_create hp atk def)) s))) =
           unat (next_fighter_id s) + k"
  using room
proof (induction k arbitrary: s)
  case 0
  then show ?case by simp
next
  case (Suc k)
  have ne: "next_fighter_id s \<noteq> FighterIndex_MAX" using Suc.prems by auto
  define s1 where "s1 = snd (create (Signed who) hp atk def s)"
  have step: "create (Signed who) hp atk def s = (Inr (), s1)"
    using ne budget cap by (simp add: create_Signed s1_def)
  have nx: "unat (next_fighter_id s1) = unat (next_fighter_id s) + 1"
    using ne budget cap unat_plus_one_below_max [of "next_fighter_id s"]
    by (simp add: create_Signed s1_def FighterIndex_MAX_def)
  have "unat (next_fighter_id s1) + k \<le> unat FighterIndex_MAX" using Suc.prems nx by simp
  from Suc.IH [OF this] step nx show ?case
    by (simp del: run.simps(2) add: run_Cons_eq)
qed

lemma run_creates_progress_witness:
  "fst (run (replicate 2 (Signed (2::nat), Call_create 500 20 10)) genesis) = [Inr (), Inr ()] \<and>
   unat (next_fighter_id (snd (run (replicate 2 (Signed (2::nat), Call_create 500 20 10)) genesis))) = 2"
proof -
  have room: "unat (next_fighter_id (genesis :: nat pallet_state)) + 2 \<le> unat FighterIndex_MAX"
    by (simp add: genesis_def GetDefaultValue_def)
  have r2: "replicate 2 (Inr () :: dispatch_error + unit) = [Inr (), Inr ()]"
    by (simp add: numeral_2_eq_2)
  from run_creates_progress [OF room, of 500 20 10 "2::nat"] r2
  show ?thesis by (simp add: genesis_def GetDefaultValue_def del: run.simps)
qed

text \<open>
  C19. Blocks of transfers on disjoint sets of fighters commute: running one block
  before the other leaves the same storage in either order, and each block's calls
  get the results they would get if that block ran alone.
\<close>

theorem transfer_blocks_commute:
  assumes "transfer_indices xs \<inter> transfer_indices ys = {}"
  shows "snd (run (transfer_calls xs @ transfer_calls ys) s) =
           snd (run (transfer_calls ys @ transfer_calls xs) s) \<and>
         fst (run (transfer_calls xs @ transfer_calls ys) s) =
           fst (run (transfer_calls xs) s) @ fst (run (transfer_calls ys) s)"
  using assms
proof (induction xs arbitrary: s)
  case Nil
  then show ?case by (simp add: run_append)
next
  case (Cons x xs)
  obtain origin i new_owner where x: "x = (origin, i, new_owner)" by (cases x) auto
  have i: "i \<notin> transfer_indices ys" and rest: "transfer_indices xs \<inter> transfer_indices ys = {}"
    using Cons.prems x by auto
  note past = transfer_past_block [OF i, of origin new_owner s]
  note IH = Cons.IH [OF rest, of "snd (transfer origin i new_owner s)"]
  have "snd (run (transfer_calls ys @ transfer_calls (x # xs)) s) =
        snd (run (transfer_calls xs) (snd (transfer origin i new_owner (snd (run (transfer_calls ys) s)))))"
    using x by (simp del: run.simps(2) add: run_append run_Cons_eq)
  also have "\<dots> = snd (run (transfer_calls ys @ transfer_calls xs) (snd (transfer origin i new_owner s)))"
    using past by (simp add: run_append)
  finally have st: "snd (run (transfer_calls ys @ transfer_calls (x # xs)) s) =
                    snd (run (transfer_calls xs @ transfer_calls ys) (snd (transfer origin i new_owner s)))"
    using IH by simp
  show ?case
    using st IH past x by (simp del: run.simps(2) add: run_Cons_eq run_fst_append)
qed

lemma transfer_blocks_commute_witness:
  "snd (run [(Signed (2::nat), Call_transfer 0 3), (Signed 4, Call_transfer 1 2)]
          (genesis\<lparr>fighters := [0 \<mapsto> Fighter [500, 20, 10], 1 \<mapsto> Fighter [1, 1, 1]],
                   fighter_owner := [0 \<mapsto> 2, 1 \<mapsto> 4]\<rparr>)) =
   snd (run [(Signed 4, Call_transfer 1 2), (Signed (2::nat), Call_transfer 0 3)]
          (genesis\<lparr>fighters := [0 \<mapsto> Fighter [500, 20, 10], 1 \<mapsto> Fighter [1, 1, 1]],
                   fighter_owner := [0 \<mapsto> 2, 1 \<mapsto> 4]\<rparr>))"
proof -
  have "transfer_indices [(Signed (2::nat), 0::FighterIndex, 3::nat)] \<inter>
        transfer_indices [(Signed (4::nat), 1::FighterIndex, 2::nat)] = {}" by simp
  from transfer_blocks_commute [OF this,
         of "genesis\<lparr>fighters := [0 \<mapsto> Fighter [500, 20, 10], 1 \<mapsto> Fighter [1, 1, 1]],
                    fighter_owner := [0 \<mapsto> 2, 1 \<mapsto> 4]\<rparr>"]
  show ?thesis by (simp only: list.map prod.case append.simps)
qed

end
