(* ===== verification/Registry_Spec.thy ===== *)
theory Registry_Spec
  imports Runtime "HOL-Library.Multiset"
begin

text \<open>
  The abstract registry of the specification (spec.md, sections 3 and 4): the fighters
  in the order of their ids, each with its current owner, so that the next id is the
  length of the list. \<open>spec_create\<close> and \<open>spec_transfer\<close> are the operations as the
  specification states them, with the power budget in unbounded arithmetic and one
  error per failure. \<open>abs_registry\<close> reads a pallet storage as such a list; the
  refinement lemmas show that \<open>create\<close> and \<open>transfer\<close> implement the abstract
  operations on every state satisfying \<open>registry_inv\<close>, the budget check under the
  hypothesis that the exact sum fits in \<open>u16\<close>, and lift this to whole runs, both for
  the final state and for the result of every call. The specification's query
  accessors and its notifications are stated on the same list: the pallet's getters
  answer the former, and the event log of a run is exactly the creation notifications
  of the latter. \<open>stored_entries\<close> reads the (fighter, owner) entries from the maps
  themselves, not through the counter, and carries the order-independence of creates.
\<close>

datatype spec_error =
    PowerBudgetExceeded | DefenseCapExceeded | IdSpaceExhausted | UnknownFighter
  | NotCurrentOwner | Unauthenticated

type_synonym 'acc registry = "(fighter \<times> 'acc) list"

definition spec_budget_ok :: "u16 \<Rightarrow> u16 \<Rightarrow> u16 \<Rightarrow> bool" where
  "spec_budget_ok hp atk def \<longleftrightarrow> unat hp + unat atk * 10 + unat def * 10 \<le> 1000"

definition spec_create :: "'acc \<Rightarrow> u16 \<Rightarrow> u16 \<Rightarrow> u16 \<Rightarrow> 'acc registry \<Rightarrow>
                           (spec_error + unit) \<times> 'acc registry" where
  "spec_create who hp atk def R =
     (if \<not> spec_budget_ok hp atk def then (Inl PowerBudgetExceeded, R)
      else if 50 < def then (Inl DefenseCapExceeded, R)
      else if length R = 4294967295 then (Inl IdSpaceExhausted, R)
      else (Inr (), R @ [(Fighter [hp, atk, def], who)]))"

definition spec_transfer :: "'acc \<Rightarrow> FighterIndex \<Rightarrow> 'acc \<Rightarrow> 'acc registry \<Rightarrow>
                             (spec_error + unit) \<times> 'acc registry" where
  "spec_transfer who i new_owner R =
     (if length R \<le> unat i then (Inl UnknownFighter, R)
      else if snd (R ! unat i) \<noteq> who then (Inl NotCurrentOwner, R)
      else (Inr (), R[unat i := (fst (R ! unat i), new_owner)]))"

text \<open>
  The query accessors of the specification (section 4.4): pure reads of the registry,
  \<open>None\<close> standing for \<open>NotFound\<close>.
\<close>

definition spec_getFighter :: "FighterIndex \<Rightarrow> 'acc registry \<Rightarrow> fighter option" where
  "spec_getFighter i R = (if unat i < length R then Some (fst (R ! unat i)) else None)"

definition spec_getOwner :: "FighterIndex \<Rightarrow> 'acc registry \<Rightarrow> 'acc option" where
  "spec_getOwner i R = (if unat i < length R then Some (snd (R ! unat i)) else None)"

definition abs_registry :: "'acc pallet_state \<Rightarrow> 'acc registry" where
  "abs_registry s =
     map (\<lambda>k. (the (fighters s (of_nat k)), the (fighter_owner s (of_nat k))))
       [0..<unat (next_fighter_id s)]"

fun create_err :: "dispatch_error \<Rightarrow> spec_error" where
  "create_err (Module TotalOverflow) = PowerBudgetExceeded"
| "create_err (Module DefOverflow) = DefenseCapExceeded"
| "create_err (Module InvalidFighterId) = IdSpaceExhausted"
| "create_err (Module NotOwner) = NotCurrentOwner"
| "create_err BadOrigin = Unauthenticated"

fun transfer_err :: "dispatch_error \<Rightarrow> spec_error" where
  "transfer_err (Module TotalOverflow) = PowerBudgetExceeded"
| "transfer_err (Module DefOverflow) = DefenseCapExceeded"
| "transfer_err (Module InvalidFighterId) = UnknownFighter"
| "transfer_err (Module NotOwner) = NotCurrentOwner"
| "transfer_err BadOrigin = Unauthenticated"

text \<open>
  A sequence of calls on the abstract registry: an unsigned call is refused by the
  host, a signed one is the specification's operation.
\<close>

fun spec_step :: "'acc origin \<times> 'acc call \<Rightarrow> 'acc registry \<Rightarrow> (spec_error + unit) \<times> 'acc registry" where
  "spec_step (Signed who, Call_create hp atk def) R = spec_create who hp atk def R"
| "spec_step (Signed who, Call_transfer i new_owner) R = spec_transfer who i new_owner R"
| "spec_step (Root, c) R = (Inl Unauthenticated, R)"
| "spec_step (NoneOrigin, c) R = (Inl Unauthenticated, R)"

fun spec_run :: "('acc origin \<times> 'acc call) list \<Rightarrow> 'acc registry \<Rightarrow> 'acc registry" where
  "spec_run [] R = R"
| "spec_run (x # xs) R = spec_run xs (snd (spec_step x R))"

text \<open>
  The same sequence with the result of every call: each pallet error is read as the
  specification's error for the kind of call that raised it.
\<close>

fun spec_exec :: "('acc origin \<times> 'acc call) list \<Rightarrow> 'acc registry \<Rightarrow>
                  (spec_error + unit) list \<times> 'acc registry" where
  "spec_exec [] R = ([], R)"
| "spec_exec (x # xs) R =
     (let (r, R') = spec_step x R; (rs, R'') = spec_exec xs R' in (r # rs, R''))"

fun call_err :: "'acc call \<Rightarrow> dispatch_error \<Rightarrow> spec_error" where
  "call_err (Call_create hp atk def) e = create_err e"
| "call_err (Call_transfer i new_owner) e = transfer_err e"

fun abs_result :: "'acc call \<Rightarrow> dispatch_error + unit \<Rightarrow> spec_error + unit" where
  "abs_result c (Inl e) = Inl (call_err c e)"
| "abs_result c (Inr u) = Inr u"

text \<open>A call whose budget expression cannot wrap in \<open>u16\<close>.\<close>

fun call_fits :: "'acc call \<Rightarrow> bool" where
  "call_fits (Call_create hp atk def) = (unat hp + unat atk * 10 + unat def * 10 < 65536)"
| "call_fits (Call_transfer i new_owner) = True"

text \<open>
  The notifications of the specification (sections 4.2, 4.3 and 6): a successful create
  announces \<open>FighterCreated(owner, id, fighter)\<close> with the id it allocated, a
  successful transfer announces \<open>FighterTransferred(previousOwner, newOwner, id)\<close>,
  anything else announces nothing. The pallet's \<open>event\<close> type carries both.
\<close>

fun spec_notify :: "'acc origin \<times> 'acc call \<Rightarrow> 'acc registry \<Rightarrow> 'acc event list" where
  "spec_notify (Signed who, Call_create hp atk def) R =
     (if fst (spec_create who hp atk def R) = Inr ()
      then [FighterCreated who (of_nat (length R)) (Fighter [hp, atk, def])] else [])"
| "spec_notify (Signed who, Call_transfer i new_owner) R =
     (if fst (spec_transfer who i new_owner R) = Inr ()
      then [FighterTransferred (snd (R ! unat i)) new_owner i] else [])"
| "spec_notify (Root, c) R = []"
| "spec_notify (NoneOrigin, c) R = []"

fun spec_trace :: "('acc origin \<times> 'acc call) list \<Rightarrow> 'acc registry \<Rightarrow> 'acc event list" where
  "spec_trace [] R = []"
| "spec_trace (x # xs) R = spec_notify x R @ spec_trace xs (snd (spec_step x R))"

fun created_event :: "'acc event \<Rightarrow> bool" where
  "created_event (FighterCreated who i f) = True"
| "created_event (FighterTransferred from to i) = False"

text \<open>
  The entries the storage really holds, read from the maps themselves rather than
  through the counter: one (fighter, owner) pair per key of \<open>Fighters\<close>.
\<close>

definition stored_entries :: "'acc pallet_state \<Rightarrow> (fighter \<times> 'acc) multiset" where
  "stored_entries s =
     image_mset (\<lambda>k. (the (fighters s k), the (fighter_owner s k))) (mset_set (dom (fighters s)))"

subsection \<open>The abstraction\<close>


lemma length_abs_registry [simp]: "length (abs_registry s) = unat (next_fighter_id s)"
  by (simp add: abs_registry_def)

lemma nth_abs_registry:
  "k < unat (next_fighter_id s) \<Longrightarrow>
   abs_registry s ! k = (the (fighters s (of_nat k)), the (fighter_owner s (of_nat k)))"
  by (simp add: abs_registry_def)

lemma inv_dom_iff: "registry_inv s \<Longrightarrow> (i \<in> dom (fighters s)) = (unat i < length (abs_registry s))"
  by (simp add: registry_inv_def word_less_nat_alt)

lemma abs_registry_create:
  assumes below: "next_fighter_id s \<noteq> FighterIndex_MAX"
  shows "abs_registry
           (s\<lparr>fighters := (fighters s)(next_fighter_id s \<mapsto> f),
              fighter_owner := (fighter_owner s)(next_fighter_id s \<mapsto> who),
              next_fighter_id := next_fighter_id s + 1, events := evs\<rparr>) =
         abs_registry s @ [(f, who)]"
  by (simp add: abs_registry_def advance_no_wrap(1) [OF below] of_nat_below_ne cong: map_cong)

lemma abs_registry_transfer:
  assumes inv: "registry_inv s" and i: "i \<in> dom (fighters s)"
  shows "abs_registry (s\<lparr>fighter_owner := (fighter_owner s)(i \<mapsto> new_owner)\<rparr>) =
         (abs_registry s)[unat i := (fst (abs_registry s ! unat i), new_owner)]"
proof (rule nth_equalityI)
  show "length (abs_registry (s\<lparr>fighter_owner := (fighter_owner s)(i \<mapsto> new_owner)\<rparr>)) =
        length ((abs_registry s)[unat i := (fst (abs_registry s ! unat i), new_owner)])"
    by simp
next
  fix k
  assume "k < length (abs_registry (s\<lparr>fighter_owner := (fighter_owner s)(i \<mapsto> new_owner)\<rparr>))"
  then have k: "k < unat (next_fighter_id s)" by simp
  have ik: "unat i < unat (next_fighter_id s)" using inv i by (simp add: inv_dom_iff)
  have "(of_nat k = i) = (k = unat i)"
    using unat_of_nat_below [OF k] by auto
  with k ik show "abs_registry (s\<lparr>fighter_owner := (fighter_owner s)(i \<mapsto> new_owner)\<rparr>) ! k =
        (abs_registry s)[unat i := (fst (abs_registry s ! unat i), new_owner)] ! k"
    by (auto simp: nth_abs_registry)
qed

lemma create_simulation:
  assumes inv: "registry_inv s"
    and fits: "unat hp + unat atk * 10 + unat def * 10 < 65536"
  shows "apfst (map_sum create_err id) (apsnd abs_registry (create (Signed who) hp atk def s)) =
         spec_create who hp atk def (abs_registry s)"
proof -
  have budget: "(hp + atk * 10 + def * 10 \<le> 1000) = spec_budget_ok hp atk def"
    using fits by (simp add: word_le_nat_alt unat_power_expr spec_budget_ok_def)
  have full: "(next_fighter_id s = FighterIndex_MAX) = (length (abs_registry s) = 4294967295)"
    by (simp add: word_unat_eq_iff)
  show ?thesis
    by (simp add: create_Signed spec_create_def budget full abs_registry_create not_le)
qed

lemma transfer_simulation:
  assumes inv: "registry_inv s"
  shows "apfst (map_sum transfer_err id) (apsnd abs_registry (transfer (Signed who) i new_owner s)) =
         spec_transfer who i new_owner (abs_registry s)"
proof (cases "i \<in> dom (fighters s)")
  case False
  then show ?thesis
    using inv by (simp add: transfer_Signed spec_transfer_def inv_dom_iff not_less)
next
  case True
  have "i \<in> dom (fighter_owner s)" using inv True by (simp add: registry_inv_def)
  then obtain cur where cur: "fighter_owner s i = Some cur" by blast
  have ik: "unat i < unat (next_fighter_id s)" using inv True by (simp add: inv_dom_iff)
  then have "snd (abs_registry s ! unat i) = cur" using cur by (simp add: nth_abs_registry)
  with True inv cur ik show ?thesis
    by (auto simp: transfer_Signed spec_transfer_def abs_registry_transfer inv_dom_iff)
qed

lemma dispatch_simulation:
  assumes inv: "registry_inv s" and fits: "call_fits c"
  shows "abs_registry (snd (dispatch origin c s)) = snd (spec_step (origin, c) (abs_registry s))"
proof (cases origin)
  case (Signed who)
  show ?thesis
  proof (cases c)
    case (Call_create hp atk def)
    with fits create_simulation [OF inv, of hp atk def who] Signed show ?thesis
      by (metis call_fits.simps(1) dispatch.simps(1) snd_apfst snd_apsnd spec_step.simps(1))
  next
    case (Call_transfer i new_owner)
    with transfer_simulation [OF inv, of who i new_owner] Signed show ?thesis
      by (metis dispatch.simps(2) snd_apfst snd_apsnd spec_step.simps(2))
  qed
qed (simp_all add: dispatch_bad_origin_state)

lemma call_err_eq [simp]:
  "call_err (Call_create hp atk def) = create_err"
  "call_err (Call_transfer i new_owner) = transfer_err"
  by (rule ext, simp)+

lemma abs_result_eq: "abs_result c r = map_sum (call_err c) id r"
  by (cases r) auto

lemma dispatch_simulation_result:
  assumes inv: "registry_inv s" and fits: "call_fits c"
  shows "abs_result c (fst (dispatch origin c s)) = fst (spec_step (origin, c) (abs_registry s))"
proof (cases origin)
  case (Signed who)
  show ?thesis
  proof (cases c)
    case (Call_create hp atk def)
    with fits have "unat hp + unat atk * 10 + unat def * 10 < 65536" by simp
    from arg_cong [where f = fst, OF create_simulation [OF inv this, of who]]
    have "map_sum create_err id (fst (create (Signed who) hp atk def s)) =
          fst (spec_create who hp atk def (abs_registry s))" by simp
    with Signed Call_create show ?thesis by (simp add: abs_result_eq)
  next
    case (Call_transfer i new_owner)
    from arg_cong [where f = fst, OF transfer_simulation [OF inv, of who i new_owner]]
    have "map_sum transfer_err id (fst (transfer (Signed who) i new_owner s)) =
          fst (spec_transfer who i new_owner (abs_registry s))" by simp
    with Signed Call_transfer show ?thesis by (simp add: abs_result_eq)
  qed
next
  case Root
  then show ?thesis by (cases c) (simp_all add: create_not_Signed transfer_not_Signed)
next
  case NoneOrigin
  then show ?thesis by (cases c) (simp_all add: create_not_Signed transfer_not_Signed)
qed

lemma spec_exec_Cons_eq:
  "spec_exec (x # xs) R = (fst (spec_step x R) # fst (spec_exec xs (snd (spec_step x R))),
                           snd (spec_exec xs (snd (spec_step x R))))"
  by (simp split: prod.split)

text \<open>On an invariant state the maps hold exactly the entries of the abstract registry.\<close>

lemma stored_entries_abs:
  assumes "registry_inv s"
  shows "stored_entries s = mset (abs_registry s)"
proof -
  let ?g = "\<lambda>k. (the (fighters s k), the (fighter_owner s k))"
  have "dom (fighters s) = {i. i < next_fighter_id s}"
    using assms by (auto simp: registry_inv_def)
  also have "\<dots> = of_nat ` {0..<unat (next_fighter_id s)}"
    by (rule word_less_eq_image)
  finally have d: "dom (fighters s) = of_nat ` {0..<unat (next_fighter_id s)}" .
  have "stored_entries s = image_mset ?g (image_mset of_nat (mset_set {0..<unat (next_fighter_id s)}))"
    unfolding stored_entries_def d
    by (simp add: image_mset_mset_set [OF inj_on_of_nat_below])
  also have "\<dots> = mset (map (?g \<circ> of_nat) [0..<unat (next_fighter_id s)])"
    by (simp add: mset_upt image_mset.compositionality)
  also have "\<dots> = mset (abs_registry s)"
    by (simp add: abs_registry_def comp_def)
  finally show ?thesis .
qed

text \<open>
  One call appends to the event log exactly the creation notifications the
  specification announces for it.
\<close>

lemma dispatch_events_spec:
  assumes inv: "registry_inv s" and fits: "call_fits c"
  shows "events (snd (dispatch origin c s)) =
         events s @ filter created_event (spec_notify (origin, c) (abs_registry s))"
proof (cases origin)
  case (Signed who)
  show ?thesis
  proof (cases c)
    case (Call_create hp atk def)
    with fits have "unat hp + unat atk * 10 + unat def * 10 < 65536" by simp
    from arg_cong [where f = fst, OF create_simulation [OF inv this, of who]]
    have res: "fst (spec_create who hp atk def (abs_registry s)) =
               map_sum create_err id (fst (create (Signed who) hp atk def s))" by simp
    have "(of_nat (length (abs_registry s)) :: FighterIndex) = next_fighter_id s" by simp
    with Signed Call_create res show ?thesis by (simp add: create_Signed)
  next
    case (Call_transfer i new_owner)
    with Signed show ?thesis by (simp add: transfer_Signed)
  qed
qed (simp_all add: dispatch_bad_origin_state)

text \<open>Whole runs simulate the specification's runs.\<close>

lemma run_simulation:
  assumes "registry_inv s" and "\<forall>x \<in> set xs. call_fits (snd x)"
  shows "abs_registry (snd (run xs s)) = spec_run xs (abs_registry s)"
  using assms
proof (induction xs arbitrary: s)
  case Nil
  then show ?case by simp
next
  case (Cons x xs)
  obtain origin c where x: "x = (origin, c)" by fastforce
  let ?s1 = "snd (dispatch origin c s)"
  have fits: "call_fits c" and rest: "\<forall>x \<in> set xs. call_fits (snd x)"
    using Cons.prems(2) x by auto
  have inv1: "registry_inv ?s1" using Cons.prems(1) by (metis dispatch_inv prod.collapse)
  have "abs_registry ?s1 = snd (spec_step (origin, c) (abs_registry s))"
    using Cons.prems(1) fits by (rule dispatch_simulation)
  with Cons.IH [OF inv1 rest] x show ?case
    by (simp del: run.simps(2) add: run_Cons_eq)
qed


text \<open>
  A block of signed creates, with room for all of them, appends to the specification's
  registry one entry per create that passes both checks, in the order of the block.
\<close>

lemma spec_run_creates:
  "length R + length cs \<le> 4294967295 \<Longrightarrow>
   spec_run (map (\<lambda>(who, hp, atk, def). (Signed who, Call_create hp atk def)) cs) R =
   R @ map (\<lambda>(who, hp, atk, def). (Fighter [hp, atk, def], who))
          (filter (\<lambda>(who, hp, atk, def). spec_budget_ok hp atk def \<and> def \<le> 50) cs)"
proof (induction cs arbitrary: R)
  case Nil
  then show ?case by simp
next
  case (Cons c cs)
  obtain who hp atk def where c: "c = (who, hp, atk, def)" by (cases c) auto
  have below: "length R \<noteq> 4294967295" using Cons.prems by simp
  have room: "length (R @ [(Fighter [hp, atk, def], who)]) + length cs \<le> 4294967295"
    using Cons.prems by simp
  show ?case
  proof (cases "spec_budget_ok hp atk def \<and> def \<le> 50")
    case True
    then have "\<not> 50 < def" by (simp add: not_less)
    with True show ?thesis
      using Cons.IH [OF room] below c by (simp add: spec_create_def)
  next
    case False
    then show ?thesis
      using Cons.IH Cons.prems c by (auto simp: spec_create_def not_less)
  qed
qed

text \<open>
  C11. On a registry satisfying the invariant, \<open>create\<close> by a signed caller implements
  the specification's create, error for error, whenever the exact power sum fits in
  \<open>u16\<close>.
\<close>

theorem create_refines:
  assumes "registry_inv s" and "unat hp + unat atk * 10 + unat def * 10 < 65536"
  shows "apfst (map_sum create_err id) (apsnd abs_registry (create (Signed who) hp atk def s)) =
         spec_create who hp atk def (abs_registry s)"
  using assms by (rule create_simulation)

text \<open>
  C12. On a registry satisfying the invariant, \<open>transfer\<close> by a signed caller
  implements the specification's transfer, error for error.
\<close>

theorem transfer_refines:
  assumes "registry_inv s"
  shows "apfst (map_sum transfer_err id) (apsnd abs_registry (transfer (Signed who) i new_owner s)) =
         spec_transfer who i new_owner (abs_registry s)"
  using assms by (rule transfer_simulation)

lemma create_refines_witness:
  "apfst (map_sum create_err id) (apsnd abs_registry (create (Signed (2::nat)) 500 20 10 genesis)) =
   spec_create 2 500 20 10 (abs_registry genesis)"
  by (rule create_refines [OF genesis_inv]) simp

lemma transfer_refines_witness:
  "apfst (map_sum transfer_err id)
     (apsnd abs_registry
       (transfer (Signed (2::nat)) 0 3 (snd (run [(Signed 2, Call_create 500 20 10)] genesis)))) =
   spec_transfer 2 0 3 (abs_registry (snd (run [(Signed (2::nat), Call_create 500 20 10)] genesis)))"
  by (rule transfer_refines [OF run_inv [OF genesis_inv]])

text \<open>
  C26. From a registry satisfying the invariant, any sequence of calls whose budget
  expressions do not wrap gives, call by call, the results the specification gives (each
  pallet error read as the specification's error for its call), and ends in a state
  whose abstraction is the specification's final registry.
\<close>

theorem run_refines_results:
  assumes "registry_inv s" and "\<forall>x \<in> set xs. call_fits (snd x)"
  shows "map2 (\<lambda>x. abs_result (snd x)) xs (fst (run xs s)) = fst (spec_exec xs (abs_registry s)) \<and>
         abs_registry (snd (run xs s)) = snd (spec_exec xs (abs_registry s))"
  using assms
proof (induction xs arbitrary: s)
  case Nil
  then show ?case by simp
next
  case (Cons x xs)
  obtain origin c where x: "x = (origin, c)" by fastforce
  let ?s1 = "snd (dispatch origin c s)"
  have fits: "call_fits c" and rest: "\<forall>x \<in> set xs. call_fits (snd x)"
    using Cons.prems(2) x by auto
  have inv1: "registry_inv ?s1" using Cons.prems(1) by (metis dispatch_inv prod.collapse)
  have st: "abs_registry ?s1 = snd (spec_step (origin, c) (abs_registry s))"
    using Cons.prems(1) fits by (rule dispatch_simulation)
  have res: "abs_result c (fst (dispatch origin c s)) = fst (spec_step (origin, c) (abs_registry s))"
    using Cons.prems(1) fits by (rule dispatch_simulation_result)
  from Cons.IH [OF inv1 rest] st res x show ?case
    by (simp del: run.simps(2) spec_exec.simps(2) add: run_Cons_eq spec_exec_Cons_eq)
qed

lemma run_refines_results_witness:
  "map2 (\<lambda>x. abs_result (snd x))
     [(Signed (2::nat), Call_create 500 20 10), (Signed 3, Call_transfer 0 (3::nat))]
     (fst (run [(Signed (2::nat), Call_create 500 20 10), (Signed 3, Call_transfer 0 3)] genesis)) =
   [Inr (), Inl NotCurrentOwner]"
proof -
  let ?xs = "[(Signed (2::nat), Call_create 500 20 10), (Signed 3, Call_transfer 0 (3::nat))]"
  have "map2 (\<lambda>x. abs_result (snd x)) ?xs (fst (run ?xs genesis)) =
        fst (spec_exec ?xs (abs_registry genesis))"
    using run_refines_results [OF genesis_inv, of ?xs] by simp
  also have "\<dots> = [Inr (), Inl NotCurrentOwner]"
    by (simp add: spec_create_def spec_transfer_def spec_budget_ok_def abs_registry_def genesis_def
                  GetDefaultValue_def)
  finally show ?thesis .
qed

text \<open>
  C28. The pallet's reads implement the specification's query accessors: on a state
  satisfying the registry invariant, \<open>get_fighter\<close> returns the registry's fighter
  at that index or fails where the specification answers \<open>NotFound\<close>, without
  touching storage, and the \<open>fighter_owner\<close> getter answers \<open>getOwner\<close>.
\<close>

theorem queries_refine:
  assumes "registry_inv s"
  shows "get_fighter i s =
           (case spec_getFighter i (abs_registry s) of Some f \<Rightarrow> Inr f | None \<Rightarrow> Inl (), s) \<and>
         fighter_owner s i = spec_getOwner i (abs_registry s)"
proof -
  have keys: "(i \<in> dom (fighters s)) = (unat i < unat (next_fighter_id s))"
    using assms by (simp add: registry_inv_def word_less_nat_alt)
  have owners: "(i \<in> dom (fighter_owner s)) = (i \<in> dom (fighters s))"
    using assms by (simp add: registry_inv_def)
  show ?thesis
  proof (cases "unat i < unat (next_fighter_id s)")
    case True
    then show ?thesis using keys owners
      by (auto simp: get_fighter_apply spec_getFighter_def spec_getOwner_def nth_abs_registry
               split: option.split)
  next
    case False
    then show ?thesis using keys owners
      by (auto simp: get_fighter_apply spec_getFighter_def spec_getOwner_def
               split: option.split)
  qed
qed

lemma queries_refine_witness:
  "get_fighter 0 (snd (create (Signed (2::nat)) 500 20 10 genesis)) = (Inr (Fighter [500, 20, 10]),
     snd (create (Signed (2::nat)) 500 20 10 genesis)) \<and>
   fighter_owner (snd (create (Signed (2::nat)) 500 20 10 genesis)) 0 = Some 2"
proof -
  have inv: "registry_inv (snd (create (Signed (2::nat)) 500 20 10 genesis))"
    using dispatch_inv [OF genesis_inv, of "Signed (2::nat)" "Call_create 500 20 10"
                        "fst (create (Signed (2::nat)) 500 20 10 genesis)"
                        "snd (create (Signed (2::nat)) 500 20 10 genesis)"] by simp
  show ?thesis
    using queries_refine [OF inv, of 0]
    by (simp add: create_Signed spec_getFighter_def spec_getOwner_def abs_registry_def genesis_def
                  GetDefaultValue_def FighterIndex_MAX_def)
qed

text \<open>
  C29. The event log refines the specification's notification trace on creations:
  from an invariant state, a sequence of calls whose budget sums fit in \<open>u16\<close>
  appends to the log exactly the \<open>FighterCreated\<close> notifications the specification
  announces for the same calls, in the same order (and none of its
  \<open>FighterTransferred\<close> notifications).
\<close>

theorem run_events_refine:
  assumes "registry_inv s" and "\<forall>x \<in> set xs. call_fits (snd x)"
  shows "events (snd (run xs s)) = events s @ filter created_event (spec_trace xs (abs_registry s))"
  using assms
proof (induction xs arbitrary: s)
  case Nil
  then show ?case by simp
next
  case (Cons x xs)
  obtain origin c where x: "x = (origin, c)" by fastforce
  have fits: "call_fits c" and rest: "\<forall>x \<in> set xs. call_fits (snd x)"
    using Cons.prems(2) x by auto
  have inv': "registry_inv (snd (dispatch origin c s))"
    using dispatch_inv [OF Cons.prems(1)] by (metis prod.collapse)
  show ?case
    using Cons.IH [OF inv' rest] dispatch_events_spec [OF Cons.prems(1) fits, of origin]
          dispatch_simulation [OF Cons.prems(1) fits, of origin] x
    by (simp del: run.simps(2) add: run_Cons_eq)
qed

lemma run_events_refine_witness:
  "events (snd (run [(Signed (2::nat), Call_create 500 20 10), (Signed 2, Call_transfer 0 3)] genesis)) =
   [FighterCreated 2 0 (Fighter [500, 20, 10])] \<and>
   spec_trace [(Signed (2::nat), Call_create 500 20 10), (Signed 2, Call_transfer 0 3)] [] =
   [FighterCreated 2 0 (Fighter [500, 20, 10]), FighterTransferred 2 3 0]"
proof -
  have e0: "events (genesis :: nat pallet_state) = []" by (simp add: genesis_def)
  have a0: "abs_registry (genesis :: nat pallet_state) = []"
    by (simp add: abs_registry_def genesis_def GetDefaultValue_def)
  have fits: "\<forall>x \<in> set [(Signed (2::nat), Call_create 500 20 10), (Signed 2, Call_transfer 0 3)].
                call_fits (snd x)" by simp
  have tr: "spec_trace [(Signed (2::nat), Call_create 500 20 10), (Signed 2, Call_transfer 0 3)] [] =
            [FighterCreated 2 0 (Fighter [500, 20, 10]), FighterTransferred 2 3 0]"
    by (simp add: spec_create_def spec_transfer_def spec_budget_ok_def)
  have "events (snd (run [(Signed (2::nat), Call_create 500 20 10), (Signed 2, Call_transfer 0 3)] genesis)) =
        filter created_event [FighterCreated 2 0 (Fighter [500, 20, 10]), FighterTransferred (2::nat) 3 0]"
    using run_events_refine [OF genesis_inv fits] unfolding e0 a0 tr by simp
  with tr show ?thesis by simp
qed

text \<open>
  C18. The order of creates does not matter to the storage: from an invariant state
  with room for every id, two blocks of signed creates that are permutations of each
  other (budget sums fitting in \<open>u16\<close>) end with the same counter and with the same
  multiset of (fighter, owner) entries in \<open>Fighters\<close> and \<open>FighterOwner\<close>; only the
  ids the entries get differ.
\<close>

theorem creates_order_independent:
  fixes cs ds :: "('acc \<times> u16 \<times> u16 \<times> u16) list" and s :: "'acc pallet_state"
  assumes inv: "registry_inv s" and perm: "mset cs = mset ds"
    and fits: "\<forall>(who, hp, atk, def) \<in> set cs. unat hp + unat atk * 10 + unat def * 10 < 65536"
    and room: "unat (next_fighter_id s) + length cs \<le> unat FighterIndex_MAX"
  shows "next_fighter_id (snd (run (map (\<lambda>(who, hp, atk, def). (Signed who, Call_create hp atk def)) cs) s)) =
           next_fighter_id (snd (run (map (\<lambda>(who, hp, atk, def). (Signed who, Call_create hp atk def)) ds) s)) \<and>
         stored_entries (snd (run (map (\<lambda>(who, hp, atk, def). (Signed who, Call_create hp atk def)) cs) s)) =
           stored_entries (snd (run (map (\<lambda>(who, hp, atk, def). (Signed who, Call_create hp atk def)) ds) s))"
proof -
  let ?sc = "snd (run (map (\<lambda>(who, hp, atk, def). (Signed who, Call_create hp atk def)) cs) s)"
  let ?sd = "snd (run (map (\<lambda>(who, hp, atk, def). (Signed who, Call_create hp atk def)) ds) s)"
  have sets: "set ds = set cs" and lens: "length ds = length cs"
    using perm by (auto dest: mset_eq_setD mset_eq_length)
  have block: "abs_registry (snd (run (map (\<lambda>(who, hp, atk, def). (Signed who, Call_create hp atk def)) xs) s)) =
               abs_registry s @ map (\<lambda>(who, hp, atk, def). (Fighter [hp, atk, def], who))
                 (filter (\<lambda>(who, hp, atk, def). spec_budget_ok hp atk def \<and> def \<le> 50) xs)"
    if "set xs = set cs" and "length xs = length cs" for xs
  proof -
    have f: "\<forall>x \<in> set (map (\<lambda>(who, hp, atk, def). (Signed who, Call_create hp atk def)) xs).
               call_fits (snd x)"
      using fits that(1) by auto
    have r: "length (abs_registry s) + length xs \<le> 4294967295"
      using room that(2) by simp
    show ?thesis
      using run_simulation [OF inv f] spec_run_creates [OF r] by simp
  qed
  have abs_eq: "mset (abs_registry ?sc) = mset (abs_registry ?sd)"
    using block [OF refl refl] block [OF sets lens] perm by simp
  have "unat (next_fighter_id ?sc) = unat (next_fighter_id ?sd)"
    using mset_eq_length [OF abs_eq] by simp
  then have next_eq: "next_fighter_id ?sc = next_fighter_id ?sd"
    by (simp add: word_unat_eq_iff)
  have "stored_entries ?sc = stored_entries ?sd"
    using abs_eq stored_entries_abs [OF run_inv [OF inv]] by simp
  with next_eq show ?thesis by simp
qed

lemma creates_order_independent_witness:
  "next_fighter_id (snd (run [(Signed (2::nat), Call_create 500 20 10), (Signed 3, Call_create 100 10 10)] genesis)) =
     next_fighter_id (snd (run [(Signed (3::nat), Call_create 100 10 10), (Signed 2, Call_create 500 20 10)] genesis)) \<and>
   stored_entries (snd (run [(Signed (2::nat), Call_create 500 20 10), (Signed 3, Call_create 100 10 10)] genesis)) =
     stored_entries (snd (run [(Signed (3::nat), Call_create 100 10 10), (Signed 2, Call_create 500 20 10)] genesis))"
  using creates_order_independent [OF genesis_inv,
          of "[(2::nat, 500, 20, 10), (3, 100, 10, 10)]" "[(3::nat, 100, 10, 10), (2, 500, 20, 10)]"]
  by (simp add: genesis_def GetDefaultValue_def del: run.simps)

end
