(* ===== verification/Spec2Isabelle.thy ===== *)
theory Spec2Isabelle
  imports Registry_Spec
begin

text \<open>
  \<^bold>\<open>A verified model of the fighter registry pallet.\<close>

  The repository is one FRAME pallet, \<^verbatim>\<open>src/pallets/game/src/lib.rs\<close>. It keeps
  three storage items, a counter \<open>NextFighterId\<close> (a \<open>u32\<close>, default 0 through
  \<open>GetDefaultValue\<close>), a map \<open>Fighters\<close> from index to \<open>Fighter([u16; 3])\<close> and
  a map \<open>FighterOwner\<close> from index to account, and offers two dispatchables:
  \<open>create(hp, atk, def)\<close> checks \<open>hp + atk * 10 + def * 10 <= 1000\<close> and
  \<open>def <= 50\<close>, takes the next index from \<open>get_next_id\<close> (which refuses
  \<open>u32::MAX\<close>), stores the fighter and the caller as owner, advances the counter and
  deposits \<open>FighterCreated\<close>; \<open>transfer(fighter_id, new_owner)\<close> checks that the
  fighter exists (\<open>get_fighter\<close>) and that the caller is its recorded owner, then
  overwrites the owner. The host (FRAME) authenticates the origin, executes the calls
  one at a time and owns the event log.

  \<^bold>\<open>Library.\<close>
  \<^item> \<open>Pallet_Prelude\<close>: \<open>u16\<close>/\<open>u32\<close> as words; the exception-and-state
    combinators \<open>dret\<close>, \<open>dthrow\<close>, \<open>dbind\<close>, \<open>dgets\<close>, \<open>dmodify\<close>,
    \<open>densure\<close> (\<open>ensure!\<close>) and \<open>dmap_err\<close> (\<open>.map_err(..)?\<close>) in which the
    dispatchables are written statement by statement, with their evaluation rules
    (collection \<open>exn_st_simps\<close>) and monad laws; Rust's checked \<open>+\<close> and \<open>*\<close>
    (\<open>checked_add\<close>, \<open>checked_mul\<close>); shared word lemmas.
  \<^item> \<open>Pallet_Types\<close>: \<open>FighterIndex\<close>, \<open>GetDefaultValue\<close>, \<open>fighter\<close>,
    \<open>event\<close>, \<open>pallet_error\<close>, the origin and \<open>DispatchError\<close> of FRAME, the
    storage record \<open>pallet_state\<close> (fields named after the generated getters
    \<open>next_fighter_id\<close>, \<open>fighters\<close>, \<open>fighter_owner\<close>, plus \<open>events\<close>),
    \<open>genesis\<close>, the storage writes and \<open>ensure_signed\<close>. The account type is the
    type variable \<open>'acc\<close>.
  \<^item> \<open>Id_Allocator\<close>: \<open>FighterIndex_MAX\<close> and \<open>get_next_id\<close>
    (lines 118-124), with the bound that the advance \<open>fighter_id + 1\<close> never wraps.
  \<^item> \<open>Stores\<close>: \<open>get_fighter\<close> (lines 126-132) and the frame of each write.
  \<^item> \<open>Fighter_Create\<close>: \<open>create\<close> (lines 73-87), its closed form, and the
    claims on success, its effect, each error branch in the code's order, and the
    exact wrap-around condition of the budget check; \<open>power_checked\<close> and
    \<open>create_checked\<close>, the same lines under overflow checks, with their agreement
    theorem.
  \<^item> \<open>Fighter_Transfer\<close>: \<open>transfer\<close> (lines 89-104): success by the owner,
    \<open>NotOwner\<close>, unknown index, and the pairwise lemmas that transfers of distinct
    fighters commute and leave each other's results alone.
  \<^item> \<open>Runtime\<close>: the generated \<open>Call\<close> enum and \<open>dispatch\<close> (lines 71-105),
    FRAME's \<open>with_transaction\<close>, sequential execution \<open>run\<close> and its
    overflow-checked variants \<open>dispatch_checked\<close>/\<open>run_checked\<close>, the inductive set
    \<open>reachable\<close> of states reachable from \<open>genesis\<close>, the invariant
    \<open>registry_inv\<close> (same keys in both maps, exactly the indices below the counter,
    every stored fighter well-formed) and the event-log invariant
    \<open>event_log_inv\<close>, with their preservation by each call; the claims on reachable
    states and runs: key sets, append-only growth, terminal exhaustion, the event log,
    who may change an owner, commutation of blocks of transfers on disjoint fighters,
    the panic condition of a block under overflow checks, and liveness of creation.
  \<^item> \<open>Registry_Spec\<close>: the registry of the specification as a list of
    (fighter, owner) pairs indexed by id, its operations \<open>spec_create\<close> and
    \<open>spec_transfer\<close>, their runs \<open>spec_run\<close>/\<open>spec_exec\<close>, the abstraction
    \<open>abs_registry\<close> with the error reading \<open>abs_result\<close>, and the refinement
    theorems \<open>create_refines\<close>, \<open>transfer_refines\<close> and \<open>run_refines_results\<close>
    (through the shared \<open>run_simulation\<close>); the query accessors
    \<open>spec_getFighter\<close> and \<open>spec_getOwner\<close> of section 4.4, answered by
    \<open>get_fighter\<close> and the \<open>fighter_owner\<close> getter (\<open>queries_refine\<close>); the
    specification's notifications \<open>spec_notify\<close>/\<open>spec_trace\<close>, of which the event
    log is exactly the creations (\<open>run_events_refine\<close>); and \<open>stored_entries\<close>, the
    (fighter, owner) entries read from the maps themselves, on which the
    order-independence of blocks of creates is stated.
  \<^item> This theory: the documentation of the development.

  \<^bold>\<open>Modelling choices.\<close> Storage is explicit state; a dispatchable is a function
  from storage to a result and the new storage, and an early return keeps whatever was
  written before it, as un-transactional FRAME storage does; \<open>with_transaction\<close>
  models the transactional variant, and theorem \<open>dispatch_transactional\<close> shows the
  two agree for these calls. Integer arithmetic is \<open>16 word\<close>/\<open>32 word\<close>. Both build
  profiles are modelled: \<open>create\<close> evaluates the budget expression with the wrapping
  arithmetic of a release build, \<open>create_checked\<close> with the checked arithmetic of a
  build with overflow checks, \<open>None\<close> standing for the panic; \<open>run_checked\<close> lifts
  the latter to blocks, a panic aborting the block. No loop occurs in the pallet, so no
  fuel is needed: \<open>run\<close> recurses on the list of extrinsics. The \<open>[u16; 3]\<close> array
  is a list of \<open>u16\<close>; the pallet only ever builds it from three values.

  \<^bold>\<open>What the lemmas show.\<close> Functional behaviour of both dispatchables on every
  branch (errors included, state unchanged on each error); the registry invariant and
  the event-log invariant on every reachable state; refinement of the specification's
  create, transfer and whole runs through \<open>abs_registry\<close>, per-call results and final
  registry (under the no-wrap hypothesis for \<open>create\<close>); the refinement of the
  specification's query accessors and of its notification trace (the event log holds
  exactly its creations); bounds on the counter; the equivalence of transactional and
  plain dispatch; the exact conditions under which the two build profiles differ, per
  call and per block; liveness of the allocator: ids keep being issued, one per valid
  create, until \<open>u32::MAX\<close> (\<open>run_creates_progress\<close>), after which every create
  fails (\<open>run_exhausted_terminal\<close>); and ordering: blocks of transfers on disjoint
  sets of fighters commute with their results unchanged (\<open>transfer_blocks_commute\<close>),
  and a permutation of a block of creates leaves the same counter and the same
  multiset of stored entries, only the ids differing (\<open>creates_order_independent\<close>,
  with \<open>HOL-Library.Multiset\<close>).

  \<^bold>\<open>Not modelled.\<close> \<open>Config::Randomness\<close> and the commented-out \<open>random_value\<close>
  (unused), weights and fees, SCALE encoding and type metadata, and FRAME's own event
  records for failed extrinsics: they carry no behaviour of the pallet. The rest of
  \<^verbatim>\<open>lib.rs\<close> (imports, attributes, the \<open>Config\<close> trait, the \<open>Pallet\<close> struct,
  comments) is macro input with no behaviour of its own; every line with behaviour is a
  definition of the development. Of the host (\<open>Call dispatch and host execution\<close>)
  only what the pallet relies on is modelled: origins, \<open>ensure_signed\<close>, transactional
  storage and sequential execution; block production, fee payment and nonces are not.
  The event log is one list for the whole history: FRAME clears \<open>System::Events\<close>
  at each block and skips deposits at block 0, which the pallet does not observe.

  \<^bold>\<open>Findings.\<close> The budget check wraps in \<open>u16\<close>: \<open>create\<close> fails with
  \<open>TotalOverflow\<close> exactly when the sum modulo \<open>2^16\<close> exceeds 1000
  (\<open>power_check_wraps\<close>), so \<open>create(0, 6554, 0)\<close> passes and stores a fighter far
  above the budget; \<open>transfer\<close> never emits \<open>FighterTransferred\<close>
  (\<open>dispatch_events\<close>); one error, \<open>InvalidFighterId\<close>, stands for both id
  exhaustion and an unknown index; the comment on \<open>Fighter\<close> gives the array order
  \<open>[attack, defend, hp]\<close>, the code stores \<open>[hp, atk, def]\<close>; a build with overflow
  checks panics where a release build wraps (\<open>create_checked_agrees\<close>).
\<close>

end
